theory Spec2Isabelle
  imports Main "HOL-Library.Word"
begin

section \<open>Structured errors (errors.go)\<close>

text \<open>
  \<^verbatim>\<open>ErrorCode\<close> is an \<^verbatim>\<open>int32\<close> and \<^verbatim>\<open>connect.Code\<close> a \<^verbatim>\<open>uint32\<close>: both are 32-bit words,
  the first read with \<open>sint\<close>. A Go map that may be \<^verbatim>\<open>nil\<close> is an optional partial function.
\<close>

type_synonym int32 = "32 word"
type_synonym ErrorCode = "32 word"
type_synonym connect_Code = "32 word"
type_synonym go_map = "(string \<rightharpoonup> string) option"

definition ErrCodeUnspecified :: ErrorCode where
  "ErrCodeUnspecified = 0"

definition ErrCodeInternal :: ErrorCode where
  "ErrCodeInternal = 900"

definition CodeUnknown :: connect_Code where
  "CodeUnknown = 2"

definition CategoryAuth :: string where
  "CategoryAuth = ''auth''"

definition CategoryAuthz :: string where
  "CategoryAuthz = ''authz''"

definition CategoryValidation :: string where
  "CategoryValidation = ''validation''"

definition CategoryNotFound :: string where
  "CategoryNotFound = ''notfound''"

definition CategoryDomain :: string where
  "CategoryDomain = ''domain''"

definition CategoryRateLimit :: string where
  "CategoryRateLimit = ''ratelimit''"

definition CategoryInternal :: string where
  "CategoryInternal = ''internal''"

record Error =
  Code :: ErrorCode
  Message :: string
  Field :: string
  Metadata :: go_map
  ConnectCode :: connect_Code

text \<open>\<^verbatim>\<open>func (e *Error) Is(code ErrorCode) bool\<close>\<close>

definition Is :: "Error \<Rightarrow> ErrorCode \<Rightarrow> bool" where
  "Is e code = (Code e = code)"

text \<open>
  \<^verbatim>\<open>func (e *Error) IsCategory(category string) bool\<close>: the \<^verbatim>\<open>switch\<close> tries its cases in
  order, over \<^verbatim>\<open>c := int32(e.Code)\<close>.
\<close>

definition IsCategory :: "Error \<Rightarrow> string \<Rightarrow> bool" where
  "IsCategory e category =
     (let c = sint (Code e) in
      if category = CategoryAuth then c \<ge> 100 \<and> c < 200
      else if category = CategoryAuthz then c \<ge> 200 \<and> c < 300
      else if category = CategoryValidation then c \<ge> 300 \<and> c < 400
      else if category = CategoryNotFound then c \<ge> 400 \<and> c < 410
      else if category = CategoryDomain then c \<ge> 500 \<and> c < 600
      else if category = CategoryRateLimit then c \<ge> 600 \<and> c < 700
      else if category = CategoryInternal then c \<ge> 900
      else False)"

subsection \<open>Go error values\<close>

text \<open>
  The generated \<^verbatim>\<open>v1.ErrorDetail\<close> message is seen by \<^verbatim>\<open>ParseError\<close> only through its four
  accessors. A detail of a Connect error has a type name and a payload that either fails to
  decode (\<open>None\<close>) or decodes to a message; a decoded message either offers the four
  accessors or does not (\<open>OtherMsg\<close>, for which the type assertion fails).
\<close>

record ErrorDetail =
  GetCode :: int32
  GetMessage :: string
  GetField :: string
  GetMetadata :: go_map

datatype proto_Message = ErrorDetailMsg ErrorDetail | OtherMsg

record connect_ErrorDetail =
  detail_Type :: string
  detail_Value :: "proto_Message option"

record connect_Error =
  ce_Message :: string
  ce_Code :: connect_Code
  ce_Details :: "connect_ErrorDetail list"

text \<open>
  An \<^verbatim>\<open>error\<close> value: what its \<^verbatim>\<open>Error()\<close> method prints, and whether it is a plain error, an
  error wrapping another one (\<^verbatim>\<open>Unwrap\<close>), a \<^verbatim>\<open>*connect.Error\<close>, or this package's \<^verbatim>\<open>*Error\<close>.
  The absent error \<^verbatim>\<open>nil\<close> is \<open>None\<close> of \<open>go_error option\<close>.
\<close>

datatype go_error =
    Plain string
  | Wrap string go_error
  | Connect string connect_Error
  | Sdk Error

text \<open>\<^verbatim>\<open>err.Error()\<close>; for \<^verbatim>\<open>*Error\<close> it is \<^verbatim>\<open>e.Message\<close>.\<close>

fun Error_string :: "go_error \<Rightarrow> string" where
  "Error_string (Plain m) = m"
| "Error_string (Wrap m _) = m"
| "Error_string (Connect m _) = m"
| "Error_string (Sdk e) = Message e"

text \<open>\<^verbatim>\<open>errors.As(err, &connectErr)\<close>: the first \<^verbatim>\<open>*connect.Error\<close> on the \<^verbatim>\<open>Unwrap\<close> chain.\<close>

fun errors_As_connect :: "go_error \<Rightarrow> connect_Error option" where
  "errors_As_connect (Plain _) = None"
| "errors_As_connect (Wrap _ inner) = errors_As_connect inner"
| "errors_As_connect (Connect _ c) = Some c"
| "errors_As_connect (Sdk _) = None"

text \<open>
  The loop of \<^verbatim>\<open>ParseError\<close> over \<^verbatim>\<open>connectErr.Details()\<close>: a detail of another type is passed
  over, a \<^verbatim>\<open>v1.ErrorDetail\<close> that fails to decode is passed over (\<^verbatim>\<open>continue\<close>), and the first
  one that decodes ends the loop (\<^verbatim>\<open>break\<close>), filling \<open>e\<close> when it offers the accessors.
\<close>

fun scanDetails :: "connect_ErrorDetail list \<Rightarrow> Error \<Rightarrow> Error" where
  "scanDetails [] e = e"
| "scanDetails (d # ds) e =
     (if detail_Type d = ''v1.ErrorDetail'' then
        (case detail_Value d of
           None \<Rightarrow> scanDetails ds e
         | Some OtherMsg \<Rightarrow> e
         | Some (ErrorDetailMsg protoMsg) \<Rightarrow>
             (let e1 = e\<lparr>Code := GetCode protoMsg\<rparr>;
                  e2 = (if GetMessage protoMsg \<noteq> '''' then e1\<lparr>Message := GetMessage protoMsg\<rparr> else e1);
                  e3 = e2\<lparr>Field := GetField protoMsg\<rparr>
              in (case GetMetadata protoMsg of
                    None \<Rightarrow> e3
                  | Some meta \<Rightarrow> e3\<lparr>Metadata := Some meta\<rparr>)))
      else scanDetails ds e)"

text \<open>\<^verbatim>\<open>func ParseError(err error) *Error\<close>\<close>

definition ParseError :: "go_error option \<Rightarrow> Error option" where
  "ParseError err =
     (case err of
        None \<Rightarrow> None
      | Some er \<Rightarrow>
          (case errors_As_connect er of
             None \<Rightarrow>
               Some \<lparr>Code = ErrCodeUnspecified, Message = Error_string er, Field = '''',
                     Metadata = None, ConnectCode = CodeUnknown\<rparr>
           | Some connectErr \<Rightarrow>
               Some (scanDetails (ce_Details connectErr)
                 \<lparr>Code = ErrCodeUnspecified, Message = ce_Message connectErr, Field = '''',
                  Metadata = Some Map.empty, ConnectCode = ce_Code connectErr\<rparr>)))"

subsection \<open>The category table of the specification\<close>

text \<open>
  The specification's table of categories: a name, the first code of its range and the
  first code after it (\<open>None\<close> for a range with no upper end).
\<close>

definition spec_category_table :: "(string \<times> int \<times> int option) list" where
  "spec_category_table =
     [(''auth'', 100, Some 200),
      (''authz'', 200, Some 300),
      (''validation'', 300, Some 400),
      (''notfound'', 400, Some 410),
      (''domain'', 500, Some 600),
      (''ratelimit'', 600, Some 700),
      (''internal'', 900, None)]"

fun spec_in_range :: "int \<Rightarrow> (int \<times> int option) option \<Rightarrow> bool" where
  "spec_in_range c None = False"
| "spec_in_range c (Some (lo, None)) = (lo \<le> c)"
| "spec_in_range c (Some (lo, Some hi)) = (lo \<le> c \<and> c < hi)"

definition spec_IsCategory :: "ErrorCode \<Rightarrow> string \<Rightarrow> bool" where
  "spec_IsCategory code name = spec_in_range (sint code) (map_of spec_category_table name)"

text \<open>
  The envelope of a Connect error, in the specification's sense: the structured detail the
  error carries. It is the first \<^verbatim>\<open>v1.ErrorDetail\<close> detail that decodes, when that one offers
  the accessors.
\<close>

definition spec_envelope :: "connect_Error \<Rightarrow> ErrorDetail option" where
  "spec_envelope c =
     (case List.find (\<lambda>d. detail_Type d = ''v1.ErrorDetail'' \<and> detail_Value d \<noteq> None) (ce_Details c) of
        Some d \<Rightarrow> (case detail_Value d of Some (ErrorDetailMsg p) \<Rightarrow> Some p | _ \<Rightarrow> None)
      | None \<Rightarrow> None)"

section \<open>Event streaming (events.go)\<close>

subsection \<open>Constants\<close>

text \<open>
  \<^verbatim>\<open>time.Duration\<close> counts nanoseconds in an \<^verbatim>\<open>int64\<close>. Every duration of this file lies
  between 0 and 60 seconds, far from the ends of that type, so durations are integers.
\<close>

type_synonym Duration = int
type_synonym AckMode = string

definition AckModeAuto :: AckMode where
  "AckModeAuto = ''auto''"

definition AckModeManual :: AckMode where
  "AckModeManual = ''manual''"

definition Millisecond :: Duration where
  "Millisecond = 1000000"

definition Second :: Duration where
  "Second = 1000 * Millisecond"

definition initialDelay :: Duration where
  "initialDelay = 1 * Second"

definition maxDelay :: Duration where
  "maxDelay = 30 * Second"

definition backoffMultipler :: int where
  "backoffMultipler = 2"

definition ackBatchSize :: nat where
  "ackBatchSize = 10"

definition ackFlushIntervalMs :: Duration where
  "ackFlushIntervalMs = 1000 * Millisecond"

subsection \<open>Events, callbacks and the streamer\<close>

text \<open>
  Modelled from the spec: the generated package \<^verbatim>\<open>gen/v1\<close> is not among the sources. Of the
  enumeration \<^verbatim>\<open>v1.EventType\<close> the code names only the heartbeat marker; every other member
  is kept by its number. Of the \<^verbatim>\<open>oneof\<close> payload the code names eight variants; a payload
  that is absent or of another variant is \<open>Payload_Other\<close>. What a variant carries is opaque
  to the streamer: the type \<open>'p\<close>.
\<close>

datatype EventType = EVENT_TYPE_HEARTBEAT | EVENT_TYPE_OTHER int32

datatype 'p Event_Payload =
    Event_EmailSent 'p
  | Event_EmailDelivered 'p
  | Event_EmailBounced 'p
  | Event_EmailComplained 'p
  | Event_EmailRejected 'p
  | Event_EmailDelayed 'p
  | Event_EmailReplied 'p
  | Event_EmailFailed 'p
  | Payload_Other

record 'p Event =
  event_Id :: string
  event_Type :: EventType
  event_Payload :: "'p Event_Payload"

text \<open>
  A call of Go code either returns or panics with a value (kept as \<^verbatim>\<open>%v\<close> prints it). A user
  callback is a closure: it reads and writes the state \<open>'u\<close> of the user's program, and it
  may have written to it before it panics. A callback that never comes back is not
  modelled: the goroutine would stay in it.
\<close>

datatype 'a outcome = Returned 'a | Panicked string

type_synonym ('a, 'u) callback = "'a \<Rightarrow> 'u \<Rightarrow> unit outcome \<times> 'u"

record ('p, 'u) EventHandlers =
  OnSent :: "('p, 'u) callback option"
  OnDelivered :: "('p, 'u) callback option"
  OnBounced :: "('p, 'u) callback option"
  OnComplained :: "('p, 'u) callback option"
  OnRejected :: "('p, 'u) callback option"
  OnDelayed :: "('p, 'u) callback option"
  OnReplied :: "('p, 'u) callback option"
  OnFailed :: "('p, 'u) callback option"
  OnError :: "(go_error, 'u) callback option"
  AckMode :: AckMode
  BatchSize :: int32

text \<open>
  What the streamer does to the world outside it, in the order it does it: the calls of
  user callbacks, the log lines, the requests to the transport (a streaming call opened and
  closed, an acknowledgment goroutine started with its identifiers), the flush timer armed
  and stopped, and the backoff sleeps that ran to their end.
\<close>

datatype 'p action =
    Call_OnSent 'p
  | Call_OnDelivered 'p
  | Call_OnBounced 'p
  | Call_OnComplained 'p
  | Call_OnRejected 'p
  | Call_OnDelayed 'p
  | Call_OnReplied 'p
  | Call_OnFailed 'p
  | Call_OnError go_error
  | Log string
  | StreamEvents int32
  | StreamClose
  | AckEvents "string list"
  | AfterFunc Duration
  | TimerStop
  | Sleep Duration

text \<open>
  \<^verbatim>\<open>type eventStreamer struct\<close>. The fields \<^verbatim>\<open>client\<close> and \<^verbatim>\<open>ctx\<close> are the transport and the
  cancellation scope: what they answer is an input of the functions below, and what is
  asked of them is written to \<open>trace\<close>. \<open>ackTimer\<close> is \<open>None\<close> for \<^verbatim>\<open>nil\<close> and holds the
  interval of the armed timer otherwise. The mutex is not a field: every function below is
  one step, as the lock makes it. \<open>user\<close> is the state of the user's program.
\<close>

record ('p, 'u) eventStreamer =
  handlers :: "('p, 'u) EventHandlers"
  pendingAcks :: "string list"
  ackTimer :: "Duration option"
  user :: 'u
  trace :: "'p action list"

definition emit :: "'p action \<Rightarrow> ('p, 'u) eventStreamer \<Rightarrow> ('p, 'u) eventStreamer" where
  "emit a s = s\<lparr>trace := trace s @ [a]\<rparr>"

text \<open>A call of a user callback \<open>f\<close> with argument \<open>x\<close>, written to the trace as \<open>label x\<close>.\<close>

definition invoke ::
  "('a \<Rightarrow> 'p action) \<Rightarrow> ('a, 'u) callback \<Rightarrow> 'a \<Rightarrow> ('p, 'u) eventStreamer
     \<Rightarrow> unit outcome \<times> ('p, 'u) eventStreamer" where
  "invoke label f x s =
     (let s1 = emit (label x) s; (r, u) = f x (user s1) in (r, s1\<lparr>user := u\<rparr>))"

text \<open>A callback field that may be \<^verbatim>\<open>nil\<close>: \<^verbatim>\<open>if s.handlers.OnX != nil { s.handlers.OnX(x) }\<close>.\<close>

definition invoke_opt ::
  "('a \<Rightarrow> 'p action) \<Rightarrow> ('a, 'u) callback option \<Rightarrow> 'a \<Rightarrow> ('p, 'u) eventStreamer
     \<Rightarrow> unit outcome \<times> ('p, 'u) eventStreamer" where
  "invoke_opt label cb x s =
     (case cb of None \<Rightarrow> (Returned (), s) | Some f \<Rightarrow> invoke label f x s)"

subsection \<open>The ack batcher\<close>

text \<open>
  \<^verbatim>\<open>func (s *eventStreamer) flushAcksLocked()\<close>. The goroutine it starts is the action
  \<open>AckEvents idsToAck\<close>; whether the request succeeds changes nothing in the streamer.
\<close>

definition flushAcksLocked :: "('p, 'u) eventStreamer \<Rightarrow> ('p, 'u) eventStreamer" where
  "flushAcksLocked s =
     (if length (pendingAcks s) = 0 then s
      else
        (let s1 = (if ackTimer s \<noteq> None then emit TimerStop (s\<lparr>ackTimer := None\<rparr>) else s);
             idsToAck = pendingAcks s1;
             s2 = s1\<lparr>pendingAcks := []\<rparr>
         in emit (AckEvents idsToAck) s2))"

text \<open>\<^verbatim>\<open>func (s *eventStreamer) flushAcks()\<close>: lock, flush, unlock.\<close>

definition flushAcks :: "('p, 'u) eventStreamer \<Rightarrow> ('p, 'u) eventStreamer" where
  "flushAcks s = flushAcksLocked s"

text \<open>\<^verbatim>\<open>func (s *eventStreamer) queueAck(eventID string)\<close>\<close>

definition queueAck :: "string \<Rightarrow> ('p, 'u) eventStreamer \<Rightarrow> ('p, 'u) eventStreamer" where
  "queueAck eventID s =
     (let s1 = s\<lparr>pendingAcks := pendingAcks s @ [eventID]\<rparr> in
      if length (pendingAcks s1) \<ge> ackBatchSize then flushAcksLocked s1
      else if ackTimer s1 = None
        then emit (AfterFunc ackFlushIntervalMs) (s1\<lparr>ackTimer := Some ackFlushIntervalMs\<rparr>)
      else s1)"

text \<open>A run of \<^verbatim>\<open>queueAck\<close> calls, one after the other, with nothing in between.\<close>

definition queueAcks :: "string list \<Rightarrow> ('p, 'u) eventStreamer \<Rightarrow> ('p, 'u) eventStreamer" where
  "queueAcks ids s = fold queueAck ids s"

subsection \<open>The dispatcher\<close>

text \<open>The \<^verbatim>\<open>switch\<close> of \<^verbatim>\<open>dispatchEvent\<close>: the part of the function the deferred call guards.\<close>

definition dispatchSwitch ::
  "('p, 'u) eventStreamer \<Rightarrow> 'p Event \<Rightarrow> unit outcome \<times> ('p, 'u) eventStreamer" where
  "dispatchSwitch s event =
     (case event_Payload event of
        Event_EmailSent p \<Rightarrow> invoke_opt Call_OnSent (OnSent (handlers s)) p s
      | Event_EmailDelivered p \<Rightarrow> invoke_opt Call_OnDelivered (OnDelivered (handlers s)) p s
      | Event_EmailBounced p \<Rightarrow> invoke_opt Call_OnBounced (OnBounced (handlers s)) p s
      | Event_EmailComplained p \<Rightarrow> invoke_opt Call_OnComplained (OnComplained (handlers s)) p s
      | Event_EmailRejected p \<Rightarrow> invoke_opt Call_OnRejected (OnRejected (handlers s)) p s
      | Event_EmailDelayed p \<Rightarrow> invoke_opt Call_OnDelayed (OnDelayed (handlers s)) p s
      | Event_EmailReplied p \<Rightarrow> invoke_opt Call_OnReplied (OnReplied (handlers s)) p s
      | Event_EmailFailed p \<Rightarrow> invoke_opt Call_OnFailed (OnFailed (handlers s)) p s
      | Payload_Other \<Rightarrow> (Returned (), s))"

text \<open>The error the deferred call hands to \<^verbatim>\<open>OnError\<close>; the fields it leaves out are zero.\<close>

definition handlerPanicError :: go_error where
  "handlerPanicError =
     Sdk \<lparr>Code = ErrCodeInternal, Message = ''panic in event handler'', Field = '''',
          Metadata = None, ConnectCode = 0\<rparr>"

text \<open>
  \<^verbatim>\<open>func (s *eventStreamer) dispatchEvent(event *v1.Event)\<close>. The deferred call runs when the
  switch is left: \<^verbatim>\<open>recover()\<close> is \<^verbatim>\<open>nil\<close> after a return; after a panic it is not \<^verbatim>\<open>nil\<close> (the
  README asks for Go 1.21, where \<^verbatim>\<open>panic(nil)\<close> has a value too) and it stops the panic,
  calls \<^verbatim>\<open>OnError\<close> when that is set, and writes the log line. A panic of \<^verbatim>\<open>OnError\<close> itself
  is raised inside the deferred call, where nothing recovers it: it leaves \<^verbatim>\<open>dispatchEvent\<close>
  before the log line.
\<close>

definition dispatchEvent ::
  "('p, 'u) eventStreamer \<Rightarrow> 'p Event \<Rightarrow> unit outcome \<times> ('p, 'u) eventStreamer" where
  "dispatchEvent s event =
     (case dispatchSwitch s event of
        (Returned _, s1) \<Rightarrow> (Returned (), s1)
      | (Panicked r, s1) \<Rightarrow>
          (case invoke_opt Call_OnError (OnError (handlers s1)) handlerPanicError s1 of
             (Returned _, s2) \<Rightarrow>
               (Returned (), emit (Log (''emailapi: panic in event handler: '' @ r)) s2)
           | (Panicked r2, s2) \<Rightarrow> (Panicked r2, s2)))"

subsection \<open>One stream session\<close>

text \<open>
  What the session meets while it receives: \<open>Receive done event\<close> is a call of
  \<^verbatim>\<open>stream.Receive()\<close> that returned true with the message \<open>event\<close>, where \<open>done\<close> is
  \<^verbatim>\<open>ctx.Err()\<close> if the scope is cancelled at the check that follows and \<open>None\<close> otherwise;
  \<open>TimerFires\<close> is the flush timer's function taking the lock between two steps of the loop.
\<close>

datatype 'p stream_step = Receive "go_error option" "'p Event" | TimerFires

text \<open>
  The \<^verbatim>\<open>for stream.Receive()\<close> loop of \<^verbatim>\<open>stream\<close>, over the steps it meets; \<open>err\<close> is what
  \<^verbatim>\<open>stream.Err()\<close> returns once \<^verbatim>\<open>Receive\<close> has returned false.
\<close>

fun receiveLoop ::
  "'p stream_step list \<Rightarrow> go_error option \<Rightarrow> ('p, 'u) eventStreamer
     \<Rightarrow> go_error option outcome \<times> ('p, 'u) eventStreamer" where
  "receiveLoop [] err s = (Returned err, s)"
| "receiveLoop (TimerFires # rest) err s = receiveLoop rest err (flushAcksLocked s)"
| "receiveLoop (Receive done event # rest) err s =
     (case done of
        Some ctxErr \<Rightarrow> (Returned (Some ctxErr), s)
      | None \<Rightarrow>
          if event_Type event = EVENT_TYPE_HEARTBEAT then receiveLoop rest err s
          else
            (case dispatchEvent s event of
               (Panicked r, s1) \<Rightarrow> (Panicked r, s1)
             | (Returned _, s1) \<Rightarrow>
                 receiveLoop rest err
                   (if AckMode (handlers s1) = AckModeAuto \<and> event_Id event \<noteq> ''''
                    then queueAck (event_Id event) s1 else s1)))"

text \<open>
  One pass of the loop of \<^verbatim>\<open>run\<close>, as the world decides it: whether the scope is cancelled
  at the top of the loop, the error of opening the stream, the steps of the receive loop and
  its final error, whether the scope is cancelled after the session, and whether the
  \<^verbatim>\<open>select\<close> of the backoff sleep takes the cancellation.
\<close>

record 'p attempt =
  ctx_done_top :: bool
  open_err :: "go_error option"
  steps :: "'p stream_step list"
  stream_Err :: "go_error option"
  ctx_done_post :: bool
  ctx_done_sleep :: bool

text \<open>
  \<^verbatim>\<open>func (s *eventStreamer) stream() error\<close>. \<^verbatim>\<open>defer stream.Close()\<close> runs on every way out
  of the function once the stream is open, a panic included.
\<close>

definition stream ::
  "'p attempt \<Rightarrow> ('p, 'u) eventStreamer \<Rightarrow> go_error option outcome \<times> ('p, 'u) eventStreamer" where
  "stream a s =
     (let s0 = emit (StreamEvents (BatchSize (handlers s))) s in
      case open_err a of
        Some err \<Rightarrow> (Returned (Some err), s0)
      | None \<Rightarrow>
          (let (r, s1) = receiveLoop (steps a) (stream_Err a) s0 in (r, emit StreamClose s1)))"

subsection \<open>The orchestration loop\<close>

text \<open>
  The step of the backoff delay. The code doubles in \<^verbatim>\<open>float64\<close> and converts back; both
  conversions are exact for integers below \<open>2 ^ 53\<close>, and the delay never exceeds \<open>maxDelay\<close>.
\<close>

definition nextDelay :: "Duration \<Rightarrow> Duration" where
  "nextDelay currentDelay =
     (let d = currentDelay * backoffMultipler in if d > maxDelay then maxDelay else d)"

text \<open>\<^verbatim>\<open>if err != nil && s.handlers.OnError != nil { s.handlers.OnError(err) }\<close>\<close>

definition reportError ::
  "go_error option \<Rightarrow> ('p, 'u) eventStreamer \<Rightarrow> unit outcome \<times> ('p, 'u) eventStreamer" where
  "reportError err s =
     (case err of
        None \<Rightarrow> (Returned (), s)
      | Some e \<Rightarrow> invoke_opt Call_OnError (OnError (handlers s)) e s)"

text \<open>
  How far the goroutine of \<^verbatim>\<open>run\<close> has got when the attempts given are used up: it has
  returned, a panic has left it (nothing recovers it, the process ends), or it is still in
  its loop with the current delay.
\<close>

datatype run_result = Stopped | Crashed string | Running Duration

fun run_loop ::
  "'p attempt list \<Rightarrow> Duration \<Rightarrow> ('p, 'u) eventStreamer \<Rightarrow> run_result \<times> ('p, 'u) eventStreamer" where
  "run_loop [] currentDelay s = (Running currentDelay, s)"
| "run_loop (a # rest) currentDelay s =
     (if ctx_done_top a then (Stopped, flushAcks s)
      else
        (case stream a s of
           (Panicked r, s1) \<Rightarrow> (Crashed r, s1)
         | (Returned err, s1) \<Rightarrow>
             if ctx_done_post a then (Stopped, flushAcks s1)
             else
               (case reportError err s1 of
                  (Panicked r, s2) \<Rightarrow> (Crashed r, s2)
                | (Returned _, s2) \<Rightarrow>
                    (let s3 = flushAcks s2 in
                     if ctx_done_sleep a then (Stopped, s3)
                     else run_loop rest (nextDelay currentDelay) (emit (Sleep currentDelay) s3)))))"

text \<open>\<^verbatim>\<open>func (s *eventStreamer) run()\<close>\<close>

definition run ::
  "'p attempt list \<Rightarrow> ('p, 'u) eventStreamer \<Rightarrow> run_result \<times> ('p, 'u) eventStreamer" where
  "run attempts s = run_loop attempts initialDelay s"

text \<open>The defaults \<^verbatim>\<open>OnReceive\<close> sets in its copy of the handlers.\<close>

definition setDefaults :: "('p, 'u) EventHandlers \<Rightarrow> ('p, 'u) EventHandlers" where
  "setDefaults hs =
     (let h1 = (if AckMode hs = '''' then hs\<lparr>AckMode := AckModeAuto\<rparr> else hs)
      in if BatchSize h1 \<le>s 0 then h1\<lparr>BatchSize := 10\<rparr> else h1)"

text \<open>
  \<^verbatim>\<open>func (c *Client) OnReceive(ctx context.Context, handlers EventHandlers)\<close>: the goroutine
  it starts, run over the attempts the world gives it, from the user's state \<open>u\<close>.
\<close>

definition OnReceive ::
  "('p, 'u) EventHandlers \<Rightarrow> 'u \<Rightarrow> 'p attempt list \<Rightarrow> run_result \<times> ('p, 'u) eventStreamer" where
  "OnReceive hs u attempts =
     run attempts
       \<lparr>handlers = setDefaults hs, pendingAcks = [], ackTimer = None, user = u, trace = []\<rparr>"

section \<open>Example inputs\<close>

text \<open>
  A Connect error with no detail, and one whose third detail is the service's envelope
  (the first is of another type, the second does not decode).
\<close>

definition ex_bare :: connect_Error where
  "ex_bare = \<lparr>ce_Message = ''down'', ce_Code = 14, ce_Details = []\<rparr>"

definition ex_detail :: ErrorDetail where
  "ex_detail =
     \<lparr>GetCode = 501, GetMessage = '''', GetField = ''from'', GetMetadata = Some [''k'' \<mapsto> ''v'']\<rparr>"

definition ex_enveloped :: connect_Error where
  "ex_enveloped =
     \<lparr>ce_Message = ''domain not verified'', ce_Code = 9,
      ce_Details =
        [\<lparr>detail_Type = ''v1.Other'', detail_Value = Some OtherMsg\<rparr>,
         \<lparr>detail_Type = ''v1.ErrorDetail'', detail_Value = None\<rparr>,
         \<lparr>detail_Type = ''v1.ErrorDetail'', detail_Value = Some (ErrorDetailMsg ex_detail)\<rparr>]\<rparr>"

text \<open>
  Handlers over payloads that are strings and a user state that counts: \<^verbatim>\<open>OnSent\<close> adds one
  and returns, \<^verbatim>\<open>OnBounced\<close> adds one and panics, \<^verbatim>\<open>OnError\<close> adds a hundred and returns. The
  mode and the batch size are left at their zero values.
\<close>

definition ex_handlers :: "(string, nat) EventHandlers" where
  "ex_handlers =
     \<lparr>OnSent = Some (\<lambda>p u. (Returned (), Suc u)),
      OnDelivered = None,
      OnBounced = Some (\<lambda>p u. (Panicked ''boom'', Suc u)),
      OnComplained = None,
      OnRejected = None,
      OnDelayed = None,
      OnReplied = None,
      OnFailed = None,
      OnError = Some (\<lambda>e u. (Returned (), u + 100)),
      AckMode = '''',
      BatchSize = 0\<rparr>"

text \<open>The same handlers with an \<^verbatim>\<open>OnError\<close> that panics, and with none.\<close>

definition ex_handlers_bad_OnError :: "(string, nat) EventHandlers" where
  "ex_handlers_bad_OnError = ex_handlers\<lparr>OnError := Some (\<lambda>e u. (Panicked ''again'', u + 100))\<rparr>"

definition ex_handlers_no_OnError :: "(string, nat) EventHandlers" where
  "ex_handlers_no_OnError = ex_handlers\<lparr>OnError := None\<rparr>"

text \<open>A streamer as \<^verbatim>\<open>OnReceive\<close> makes it, and one with three identifiers waiting.\<close>

definition ex_streamer :: "(string, nat) EventHandlers \<Rightarrow> (string, nat) eventStreamer" where
  "ex_streamer hs =
     \<lparr>handlers = setDefaults hs, pendingAcks = [], ackTimer = None, user = 0, trace = []\<rparr>"

definition ex_streamer_pending :: "(string, nat) eventStreamer" where
  "ex_streamer_pending =
     (ex_streamer ex_handlers)
       \<lparr>pendingAcks := [''a'', ''b'', ''c''], ackTimer := Some ackFlushIntervalMs\<rparr>"

definition ex_sent :: "string Event" where
  "ex_sent = \<lparr>event_Id = ''e1'', event_Type = EVENT_TYPE_OTHER 1, event_Payload = Event_EmailSent ''to-a''\<rparr>"

definition ex_bounced :: "string Event" where
  "ex_bounced = \<lparr>event_Id = ''e2'', event_Type = EVENT_TYPE_OTHER 3, event_Payload = Event_EmailBounced ''to-b''\<rparr>"

definition ex_sent_no_id :: "string Event" where
  "ex_sent_no_id = \<lparr>event_Id = '''', event_Type = EVENT_TYPE_OTHER 1, event_Payload = Event_EmailSent ''to-c''\<rparr>"

definition ex_heartbeat :: "string Event" where
  "ex_heartbeat = \<lparr>event_Id = ''hb'', event_Type = EVENT_TYPE_HEARTBEAT, event_Payload = Event_EmailSent ''to-d''\<rparr>"

text \<open>
  A session that receives \<open>evs\<close> and then ends with \<open>err\<close>, with no cancellation anywhere.
\<close>

definition ex_attempt :: "string Event list \<Rightarrow> go_error option \<Rightarrow> string attempt" where
  "ex_attempt evs err =
     \<lparr>ctx_done_top = False, open_err = None, steps = map (Receive None) evs, stream_Err = err,
      ctx_done_post = False, ctx_done_sleep = False\<rparr>"

text \<open>Ten event identifiers, and the first three of them.\<close>

definition ex_ten_ids :: "string list" where
  "ex_ten_ids =
     [''ev-a'', ''ev-b'', ''ev-c'', ''ev-d'', ''ev-e'', ''ev-f'', ''ev-g'', ''ev-h'', ''ev-i'', ''ev-j'']"

definition ex_three_ids :: "string list" where
  "ex_three_ids = take 3 ex_ten_ids"

section \<open>Notions used to state the properties\<close>

text \<open>
  Actions fall into four kinds by who they reach: the user's program (callbacks and log
  lines), the ack batcher's timer and acknowledgment requests, the streaming call, and the
  backoff sleep.
\<close>

datatype action_kind = UserAction | BatcherAction | TransportAction | SleepAction

fun kind_of :: "'p action \<Rightarrow> action_kind" where
  "kind_of (Call_OnSent _) = UserAction"
| "kind_of (Call_OnDelivered _) = UserAction"
| "kind_of (Call_OnBounced _) = UserAction"
| "kind_of (Call_OnComplained _) = UserAction"
| "kind_of (Call_OnRejected _) = UserAction"
| "kind_of (Call_OnDelayed _) = UserAction"
| "kind_of (Call_OnReplied _) = UserAction"
| "kind_of (Call_OnFailed _) = UserAction"
| "kind_of (Call_OnError _) = UserAction"
| "kind_of (Log _) = UserAction"
| "kind_of (StreamEvents _) = TransportAction"
| "kind_of StreamClose = TransportAction"
| "kind_of (AckEvents _) = BatcherAction"
| "kind_of (AfterFunc _) = BatcherAction"
| "kind_of TimerStop = BatcherAction"
| "kind_of (Sleep _) = SleepAction"

text \<open>A view of a trace: what \<open>g\<close> reads off each action, in order.\<close>

definition collect :: "('p action \<Rightarrow> 'b list) \<Rightarrow> 'p action list \<Rightarrow> 'b list" where
  "collect g tr = concat (map g tr)"

definition silent_on :: "action_kind \<Rightarrow> ('p action \<Rightarrow> 'b list) \<Rightarrow> bool" where
  "silent_on k g = (\<forall>a. kind_of a = k \<longrightarrow> g a = [])"

fun sleep_of :: "'p action \<Rightarrow> Duration list" where
  "sleep_of (Sleep d) = [d]"
| "sleep_of _ = []"

fun ack_of :: "'p action \<Rightarrow> string list list" where
  "ack_of (AckEvents ids) = [ids]"
| "ack_of _ = []"

fun open_of :: "'p action \<Rightarrow> int32 list" where
  "open_of (StreamEvents n) = [n]"
| "open_of _ = []"

fun onError_of :: "'p action \<Rightarrow> go_error list" where
  "onError_of (Call_OnError e) = [e]"
| "onError_of _ = []"

text \<open>
  The delays slept, the identifier lists sent for acknowledgment, the batch sizes of the
  streaming calls opened, and the errors handed to \<^verbatim>\<open>OnError\<close>, each in the order of the trace.
\<close>

definition sleeps :: "'p action list \<Rightarrow> Duration list" where
  "sleeps tr = collect sleep_of tr"

definition acked :: "'p action list \<Rightarrow> string list list" where
  "acked tr = collect ack_of tr"

definition opened :: "'p action list \<Rightarrow> int32 list" where
  "opened tr = collect open_of tr"

definition onErrors :: "'p action list \<Rightarrow> go_error list" where
  "onErrors tr = collect onError_of tr"


text \<open>The streamer with another \<^verbatim>\<open>AckMode\<close> string in its handlers and nothing else changed.\<close>

definition setMode :: "AckMode \<Rightarrow> ('p, 'u) eventStreamer \<Rightarrow> ('p, 'u) eventStreamer" where
  "setMode m s = s\<lparr>handlers := (handlers s)\<lparr>AckMode := m\<rparr>\<rparr>"

text \<open>
  \<open>extends_by K s s'\<close>: from \<open>s\<close> to \<open>s'\<close> the handlers are the same and the trace has grown
  at its end by actions of the kinds in \<open>K\<close> only. \<open>keeps_batch s s'\<close>: the pending
  identifiers and the timer are the same.
\<close>

definition extends_by ::
  "action_kind set \<Rightarrow> ('p, 'u) eventStreamer \<Rightarrow> ('p, 'u) eventStreamer \<Rightarrow> bool" where
  "extends_by K s s' =
     (handlers s' = handlers s \<and> (\<exists>ext. trace s' = trace s @ ext \<and> (\<forall>a \<in> set ext. kind_of a \<in> K)))"

definition keeps_batch :: "('p, 'u) eventStreamer \<Rightarrow> ('p, 'u) eventStreamer \<Rightarrow> bool" where
  "keeps_batch s s' = (pendingAcks s' = pendingAcks s \<and> ackTimer s' = ackTimer s)"

text \<open>
  One pass of the loop of \<^verbatim>\<open>run\<close> up to its sleep: either the goroutine ends in this pass
  (\<open>Inl\<close>, with how it ends) or the pass reaches the sleep without cancellation (\<open>Inr\<close>).
\<close>

definition attempt_end ::
  "'p attempt \<Rightarrow> ('p, 'u) eventStreamer
     \<Rightarrow> (run_result \<times> ('p, 'u) eventStreamer) + ('p, 'u) eventStreamer" where
  "attempt_end a s =
     (if ctx_done_top a then Inl (Stopped, flushAcks s)
      else
        (case stream a s of
           (Panicked r, s1) \<Rightarrow> Inl (Crashed r, s1)
         | (Returned err, s1) \<Rightarrow>
             if ctx_done_post a then Inl (Stopped, flushAcks s1)
             else
               (case reportError err s1 of
                  (Panicked r, s2) \<Rightarrow> Inl (Crashed r, s2)
                | (Returned _, s2) \<Rightarrow>
                    if ctx_done_sleep a then Inl (Stopped, flushAcks s2) else Inr (flushAcks s2))))"

text \<open>
  What the dispatch of a payload \<open>p\<close> to the callback field \<open>cb\<close> has to give, written out:
  with no callback set nothing happens; with a callback \<open>f\<close> the call is on the trace under
  its label, \<open>f\<close> has run on \<open>p\<close> and the user's state, and the call ends as \<open>f\<close> ends.
\<close>

definition spec_call ::
  "('p \<Rightarrow> 'p action) \<Rightarrow> ('p, 'u) callback option \<Rightarrow> 'p \<Rightarrow> ('p, 'u) eventStreamer
     \<Rightarrow> unit outcome \<times> ('p, 'u) eventStreamer" where
  "spec_call label cb p s =
     (case cb of
        None \<Rightarrow> (Returned (), s)
      | Some f \<Rightarrow>
          (fst (f p (user s)), s\<lparr>user := snd (f p (user s)), trace := trace s @ [label p]\<rparr>))"

section \<open>Properties of the structured errors\<close>

lemmas category_names = CategoryAuth_def CategoryAuthz_def CategoryValidation_def
  CategoryNotFound_def CategoryDomain_def CategoryRateLimit_def CategoryInternal_def

lemma IsCategory_iff_spec: "IsCategory e name = spec_IsCategory (Code e) name"
  by (simp add: IsCategory_def spec_IsCategory_def spec_category_table_def category_names Let_def)

text \<open>
  C8. \<^verbatim>\<open>IsCategory\<close> is true exactly when the code lies in the range the specification's
  table gives the category: auth [100,200), authz [200,300), validation [300,400), notfound
  [400,410), domain [500,600), ratelimit [600,700), internal from 900 on. Code 501 is in
  domain and not in validation, code 450 is in no category at all, and a name that the
  table does not declare yields false for every code.
\<close>

theorem IsCategory_ranges:
  "IsCategory e name = spec_IsCategory (Code e) name
   \<and> IsCategory (e\<lparr>Code := 501\<rparr>) ''domain''
   \<and> \<not> IsCategory (e\<lparr>Code := 501\<rparr>) ''validation''
   \<and> (\<forall>n. \<not> IsCategory (e\<lparr>Code := 450\<rparr>) n)
   \<and> (name \<notin> fst ` set spec_category_table \<longrightarrow> \<not> IsCategory e name)"
proof (intro conjI)
  show "IsCategory e name = spec_IsCategory (Code e) name"
    by (rule IsCategory_iff_spec)
  show "IsCategory (e\<lparr>Code := 501\<rparr>) ''domain''"
    by (simp add: IsCategory_def category_names)
  show "\<not> IsCategory (e\<lparr>Code := 501\<rparr>) ''validation''"
    by (simp add: IsCategory_def category_names)
  show "\<forall>n. \<not> IsCategory (e\<lparr>Code := 450\<rparr>) n"
    by (simp add: IsCategory_def category_names)
  show "name \<notin> fst ` set spec_category_table \<longrightarrow> \<not> IsCategory e name"
    by (simp add: IsCategory_def category_names spec_category_table_def)
qed

theorem IsCategory_ranges_witness:
  "''billing'' \<notin> fst ` set spec_category_table
   \<and> \<not> IsCategory \<lparr>Code = 901, Message = ''m'', Field = '''', Metadata = None, ConnectCode = 13\<rparr> ''billing''
   \<and> IsCategory \<lparr>Code = 901, Message = ''m'', Field = '''', Metadata = None, ConnectCode = 13\<rparr> ''internal''
   \<and> spec_IsCategory 901 ''internal''"
  using IsCategory_ranges [of "\<lparr>Code = 901, Message = ''m'', Field = '''', Metadata = None, ConnectCode = 13\<rparr>" "''billing''"]
    IsCategory_ranges [of "\<lparr>Code = 901, Message = ''m'', Field = '''', Metadata = None, ConnectCode = 13\<rparr>" "''internal''"]
  by (simp add: spec_category_table_def spec_IsCategory_def)

subsection \<open>ParseError\<close>

lemma scan_find_None:
  "List.find (\<lambda>d. detail_Type d = ''v1.ErrorDetail'' \<and> detail_Value d \<noteq> None) ds = None
   \<Longrightarrow> scanDetails ds e = e"
  by (induction ds) (auto split: option.splits if_splits)

lemma scan_find_Some:
  "List.find (\<lambda>d. detail_Type d = ''v1.ErrorDetail'' \<and> detail_Value d \<noteq> None) ds = Some d
   \<Longrightarrow> scanDetails ds e = scanDetails [d] e"
  by (induction ds) (auto split: option.splits if_splits)

lemma find_Some_holds: "List.find P ds = Some d \<Longrightarrow> P d"
  by (induction ds) (auto split: if_splits)

lemma scanDetails_no_envelope:
  assumes "spec_envelope c = None"
  shows "scanDetails (ce_Details c) e = e"
proof (cases "List.find (\<lambda>d. detail_Type d = ''v1.ErrorDetail'' \<and> detail_Value d \<noteq> None) (ce_Details c)")
  case None
  then show ?thesis by (rule scan_find_None)
next
  case (Some d)
  from Some have d: "detail_Type d = ''v1.ErrorDetail'' \<and> detail_Value d \<noteq> None"
    by (rule find_Some_holds)
  from assms Some have "detail_Value d = Some OtherMsg"
    using d by (auto simp: spec_envelope_def split: option.splits proto_Message.splits)
  with d have "scanDetails [d] e = e" by simp
  with Some show ?thesis by (simp only: scan_find_Some)
qed

lemma scanDetails_envelope:
  assumes "spec_envelope c = Some p"
  shows "scanDetails (ce_Details c) e =
     e\<lparr>Code := GetCode p,
       Message := (if GetMessage p \<noteq> '''' then GetMessage p else Message e),
       Field := GetField p,
       Metadata := (case GetMetadata p of None \<Rightarrow> Metadata e | Some meta \<Rightarrow> Some meta)\<rparr>"
proof (cases "List.find (\<lambda>d. detail_Type d = ''v1.ErrorDetail'' \<and> detail_Value d \<noteq> None) (ce_Details c)")
  case None
  with assms show ?thesis by (simp add: spec_envelope_def)
next
  case (Some d)
  from Some have d: "detail_Type d = ''v1.ErrorDetail'' \<and> detail_Value d \<noteq> None"
    by (rule find_Some_holds)
  from assms Some have "detail_Value d = Some (ErrorDetailMsg p)"
    using d by (auto simp: spec_envelope_def split: option.splits proto_Message.splits)
  with d have "scanDetails [d] e =
     e\<lparr>Code := GetCode p,
       Message := (if GetMessage p \<noteq> '''' then GetMessage p else Message e),
       Field := GetField p,
       Metadata := (case GetMetadata p of None \<Rightarrow> Metadata e | Some meta \<Rightarrow> Some meta)\<rparr>"
    by (simp add: Let_def split: option.splits)
  with Some show ?thesis by (simp only: scan_find_Some)
qed

lemma ex_bare_envelope: "spec_envelope ex_bare = None"
  by (simp add: spec_envelope_def ex_bare_def)

lemma ex_enveloped_envelope: "spec_envelope ex_enveloped = Some ex_detail"
  by (simp add: spec_envelope_def ex_enveloped_def)

text \<open>
  C7, as amended. \<^verbatim>\<open>ParseError(nil)\<close> is \<^verbatim>\<open>nil\<close>. For an error with no Connect error on its
  \<^verbatim>\<open>Unwrap\<close> chain the result has code 0, the unknown transport status, a \<^verbatim>\<open>nil\<close> metadata map
  and the message \<^verbatim>\<open>err.Error()\<close>. For a Connect error the result keeps that error's own
  status and takes its message: with no envelope the code is 0, the field empty and the
  metadata an empty map; with an envelope the code and the field are the envelope's, the
  message is the envelope's only when that is not empty, and the metadata is the envelope's
  only when that is not \<^verbatim>\<open>nil\<close>.
\<close>

theorem ParseError_cases:
  "ParseError None = None
   \<and> (errors_As_connect err = None \<longrightarrow>
        ParseError (Some err) =
          Some \<lparr>Code = ErrCodeUnspecified, Message = Error_string err, Field = '''',
                Metadata = None, ConnectCode = CodeUnknown\<rparr>)
   \<and> (errors_As_connect err = Some c \<longrightarrow> spec_envelope c = None \<longrightarrow>
        ParseError (Some err) =
          Some \<lparr>Code = ErrCodeUnspecified, Message = ce_Message c, Field = '''',
                Metadata = Some Map.empty, ConnectCode = ce_Code c\<rparr>)
   \<and> (errors_As_connect err = Some c \<longrightarrow> spec_envelope c = Some p \<longrightarrow>
        ParseError (Some err) =
          Some \<lparr>Code = GetCode p,
                Message = (if GetMessage p \<noteq> '''' then GetMessage p else ce_Message c),
                Field = GetField p,
                Metadata = (case GetMetadata p of None \<Rightarrow> Some Map.empty | Some meta \<Rightarrow> Some meta),
                ConnectCode = ce_Code c\<rparr>)"
proof (intro conjI impI)
  show "ParseError None = None"
    by (simp add: ParseError_def)
next
  assume "errors_As_connect err = None"
  then show "ParseError (Some err) =
      Some \<lparr>Code = ErrCodeUnspecified, Message = Error_string err, Field = '''',
            Metadata = None, ConnectCode = CodeUnknown\<rparr>"
    by (simp add: ParseError_def)
next
  assume "errors_As_connect err = Some c" and "spec_envelope c = None"
  then show "ParseError (Some err) =
      Some \<lparr>Code = ErrCodeUnspecified, Message = ce_Message c, Field = '''',
            Metadata = Some Map.empty, ConnectCode = ce_Code c\<rparr>"
    by (simp add: ParseError_def scanDetails_no_envelope)
next
  assume "errors_As_connect err = Some c" and "spec_envelope c = Some p"
  then show "ParseError (Some err) =
      Some \<lparr>Code = GetCode p,
            Message = (if GetMessage p \<noteq> '''' then GetMessage p else ce_Message c),
            Field = GetField p,
            Metadata = (case GetMetadata p of None \<Rightarrow> Some Map.empty | Some meta \<Rightarrow> Some meta),
            ConnectCode = ce_Code c\<rparr>"
    by (simp add: ParseError_def scanDetails_envelope split: option.splits)
qed

theorem ParseError_cases_witness:
  "errors_As_connect (Wrap ''send: timeout'' (Plain ''timeout'')) = None
   \<and> ParseError (Some (Wrap ''send: timeout'' (Plain ''timeout''))) =
       Some \<lparr>Code = 0, Message = ''send: timeout'', Field = '''', Metadata = None, ConnectCode = 2\<rparr>
   \<and> errors_As_connect (Connect ''unavailable: down'' ex_bare) = Some ex_bare
   \<and> spec_envelope ex_bare = None
   \<and> ParseError (Some (Connect ''unavailable: down'' ex_bare)) =
       Some \<lparr>Code = 0, Message = ''down'', Field = '''', Metadata = Some Map.empty, ConnectCode = 14\<rparr>
   \<and> errors_As_connect (Wrap ''send'' (Connect ''failed_precondition: domain not verified'' ex_enveloped)) = Some ex_enveloped
   \<and> spec_envelope ex_enveloped = Some ex_detail
   \<and> ParseError (Some (Wrap ''send'' (Connect ''failed_precondition: domain not verified'' ex_enveloped))) =
       Some \<lparr>Code = 501, Message = ''domain not verified'', Field = ''from'',
             Metadata = Some [''k'' \<mapsto> ''v''], ConnectCode = 9\<rparr>"
  using ParseError_cases [of "Wrap ''send: timeout'' (Plain ''timeout'')"]
    ParseError_cases [of "Connect ''unavailable: down'' ex_bare" ex_bare]
    ParseError_cases [of "Wrap ''send'' (Connect ''failed_precondition: domain not verified'' ex_enveloped)" ex_enveloped ex_detail]
    ex_enveloped_envelope ex_bare_envelope
  by (simp add: ErrCodeUnspecified_def CodeUnknown_def ex_bare_def ex_detail_def ex_enveloped_def)

text \<open>
  The claim C7 as it is written fails at a Connect error that carries no detail at all:
  it has no envelope, yet the result has the error's own transport status (14, unavailable)
  and not the unknown one, and its message is the Connect message, not the text of
  \<^verbatim>\<open>err.Error()\<close>.
\<close>

theorem ParseError_bare_connect_counterexample:
  "errors_As_connect (Connect ''unavailable: down'' ex_bare) = Some ex_bare
   \<and> spec_envelope ex_bare = None
   \<and> (\<exists>e. ParseError (Some (Connect ''unavailable: down'' ex_bare)) = Some e
          \<and> ConnectCode e \<noteq> CodeUnknown
          \<and> Message e \<noteq> Error_string (Connect ''unavailable: down'' ex_bare))"
  by (simp add: ParseError_def ex_bare_def spec_envelope_def CodeUnknown_def)

section \<open>Traces and frames\<close>

lemma collect_Nil [simp]: "collect g [] = []"
  by (simp add: collect_def)

lemma collect_append [simp]: "collect g (xs @ ys) = collect g xs @ collect g ys"
  by (simp add: collect_def)

lemma collect_Cons [simp]: "collect g (x # xs) = g x @ collect g xs"
  by (simp add: collect_def)

lemma collect_silent:
  assumes "\<forall>a \<in> set ext. kind_of a \<in> K" and "\<And>k. k \<in> K \<Longrightarrow> silent_on k g"
  shows "collect g ext = []"
  using assms by (induction ext) (auto simp: silent_on_def)

lemma extends_by_refl [simp]: "extends_by K s s"
  by (simp add: extends_by_def)

lemma extends_by_trans:
  "extends_by K s s1 \<Longrightarrow> extends_by K s1 s2 \<Longrightarrow> extends_by K s s2"
  by (auto simp: extends_by_def)

lemma extends_by_mono: "extends_by K s s' \<Longrightarrow> K \<subseteq> K' \<Longrightarrow> extends_by K' s s'"
  by (auto simp: extends_by_def)

lemma extends_by_emit: "kind_of a \<in> K \<Longrightarrow> extends_by K s (emit a s)"
  by (simp add: extends_by_def emit_def)

lemma extends_by_handlers: "extends_by K s s' \<Longrightarrow> handlers s' = handlers s"
  by (simp add: extends_by_def)

lemma extends_by_collect:
  assumes "extends_by K s s'" and "\<And>k. k \<in> K \<Longrightarrow> silent_on k g"
  shows "collect g (trace s') = collect g (trace s)"
proof -
  from assms(1) obtain ext where "trace s' = trace s @ ext" and "\<forall>a \<in> set ext. kind_of a \<in> K"
    by (auto simp: extends_by_def)
  with assms(2) show ?thesis by (simp add: collect_silent)
qed

lemma keeps_batch_refl [simp]: "keeps_batch s s"
  by (simp add: keeps_batch_def)

lemma keeps_batch_trans: "keeps_batch s s1 \<Longrightarrow> keeps_batch s1 s2 \<Longrightarrow> keeps_batch s s2"
  by (simp add: keeps_batch_def)

lemma keeps_batch_emit [simp]: "keeps_batch s (emit a s)"
  by (simp add: keeps_batch_def emit_def)

subsection \<open>Callbacks\<close>

lemma invoke_eq:
  "invoke label f x s =
     (fst (f x (user s)), s\<lparr>user := snd (f x (user s)), trace := trace s @ [label x]\<rparr>)"
  by (simp add: invoke_def emit_def Let_def split: prod.splits)

lemma invoke_opt_frame:
  assumes "kind_of (label x) = UserAction"
  shows "extends_by {UserAction} s (snd (invoke_opt label cb x s))"
    and "keeps_batch s (snd (invoke_opt label cb x s))"
  using assms
  by (auto simp: invoke_opt_def invoke_eq extends_by_def keeps_batch_def split: option.splits)

lemma dispatchSwitch_frame:
  "extends_by {UserAction} s (snd (dispatchSwitch s event))"
  "keeps_batch s (snd (dispatchSwitch s event))"
  by (auto simp: dispatchSwitch_def invoke_opt_frame split: Event_Payload.splits)

lemma dispatchEvent_frame:
  "extends_by {UserAction} s (snd (dispatchEvent s event))"
  "keeps_batch s (snd (dispatchEvent s event))"
proof -
  obtain r s1 where sw: "dispatchSwitch s event = (r, s1)" by (cases "dispatchSwitch s event")
  have e1: "extends_by {UserAction} s s1" and k1: "keeps_batch s s1"
    using dispatchSwitch_frame [of s event] sw by simp_all
  obtain r2 s2 where oe: "invoke_opt Call_OnError (OnError (handlers s1)) handlerPanicError s1 = (r2, s2)"
    by (cases "invoke_opt Call_OnError (OnError (handlers s1)) handlerPanicError s1")
  have e2: "extends_by {UserAction} s1 s2" and k2: "keeps_batch s1 s2"
    using invoke_opt_frame [of Call_OnError handlerPanicError s1 "OnError (handlers s1)"] oe by simp_all
  have e3: "extends_by {UserAction} s2 (emit (Log m) s2)" for m
    by (simp add: extends_by_emit)
  show "extends_by {UserAction} s (snd (dispatchEvent s event))"
    using e1 e2 e3 sw oe
    by (auto simp: dispatchEvent_def split: outcome.splits intro: extends_by_trans)
  show "keeps_batch s (snd (dispatchEvent s event))"
    using k1 k2 sw oe
    by (auto simp: dispatchEvent_def split: outcome.splits intro: keeps_batch_trans)
qed

lemma reportError_frame:
  "extends_by {UserAction} s (snd (reportError err s))"
  "keeps_batch s (snd (reportError err s))"
  by (auto simp: reportError_def invoke_opt_frame split: option.splits)

subsection \<open>The batcher\<close>

lemma flushAcksLocked_empty: "pendingAcks s = [] \<Longrightarrow> flushAcksLocked s = s"
  by (simp add: flushAcksLocked_def)

lemma flushAcksLocked_nonempty:
  "pendingAcks s \<noteq> [] \<Longrightarrow>
   flushAcksLocked s =
     s\<lparr>pendingAcks := [], ackTimer := None,
       trace := trace s @ (if ackTimer s \<noteq> None then [TimerStop] else []) @ [AckEvents (pendingAcks s)]\<rparr>"
  by (simp add: flushAcksLocked_def emit_def Let_def)

lemma pendingAcks_flushAcksLocked [simp]: "pendingAcks (flushAcksLocked s) = []"
  by (cases "pendingAcks s = []") (simp_all add: flushAcksLocked_empty flushAcksLocked_nonempty)

lemma flushAcksLocked_idem [simp]: "flushAcksLocked (flushAcksLocked s) = flushAcksLocked s"
  by (simp add: flushAcksLocked_empty)

lemma user_flushAcksLocked [simp]: "user (flushAcksLocked s) = user s"
  by (cases "pendingAcks s = []") (simp_all add: flushAcksLocked_empty flushAcksLocked_nonempty)

lemma flushAcksLocked_frame: "extends_by {BatcherAction} s (flushAcksLocked s)"
  by (cases "pendingAcks s = []")
    (simp_all add: flushAcksLocked_empty flushAcksLocked_nonempty extends_by_def)

lemma acked_flushAcksLocked:
  "acked (trace (flushAcksLocked s)) =
     acked (trace s) @ (if pendingAcks s = [] then [] else [pendingAcks s])"
  by (cases "pendingAcks s = []")
    (simp_all add: flushAcksLocked_empty flushAcksLocked_nonempty acked_def)

lemma queueAck_step:
  "queueAck eventID s =
     (if Suc (length (pendingAcks s)) \<ge> ackBatchSize
      then s\<lparr>pendingAcks := [], ackTimer := None,
             trace := trace s @ (if ackTimer s \<noteq> None then [TimerStop] else [])
                        @ [AckEvents (pendingAcks s @ [eventID])]\<rparr>
      else s\<lparr>pendingAcks := pendingAcks s @ [eventID],
             ackTimer := (if ackTimer s = None then Some ackFlushIntervalMs else ackTimer s),
             trace := trace s @ (if ackTimer s = None then [AfterFunc ackFlushIntervalMs] else [])\<rparr>)"
  by (simp add: queueAck_def Let_def flushAcksLocked_nonempty emit_def)

lemma queueAck_frame: "extends_by {BatcherAction} s (queueAck eventID s)"
  by (simp add: queueAck_step extends_by_def)

lemma user_queueAck [simp]: "user (queueAck eventID s) = user s"
  by (simp add: queueAck_step)

subsection \<open>Sessions\<close>

lemma receiveLoop_frame:
  "extends_by {UserAction, BatcherAction} s (snd (receiveLoop sts err s))"
proof (induction sts err s rule: receiveLoop.induct)
  case (1 err s)
  show ?case by simp
next
  case (2 rest err s)
  have "extends_by {UserAction, BatcherAction} s (flushAcksLocked s)"
    by (rule extends_by_mono [OF flushAcksLocked_frame]) simp
  with 2 show ?case by (auto intro: extends_by_trans)
next
  case (3 cd event rest err s)
  show ?case
  proof (cases "cd = None \<and> event_Type event \<noteq> EVENT_TYPE_HEARTBEAT")
    case False
    with 3 show ?thesis by (auto split: option.splits)
  next
    case True
    obtain r s1 where d: "dispatchEvent s event = (r, s1)" by (cases "dispatchEvent s event")
    have e1: "extends_by {UserAction, BatcherAction} s s1"
      using dispatchEvent_frame(1) [of s event] d by (auto intro: extends_by_mono)
    show ?thesis
    proof (cases r)
      case (Panicked v)
      with True d e1 show ?thesis by simp
    next
      case (Returned x)
      let ?s2 = "if AckMode (handlers s1) = AckModeAuto \<and> event_Id event \<noteq> ''''
                 then queueAck (event_Id event) s1 else s1"
      have e2: "extends_by {UserAction, BatcherAction} s1 ?s2"
        using queueAck_frame [of s1 "event_Id event"] by (auto intro: extends_by_mono)
      have "extends_by {UserAction, BatcherAction} ?s2 (snd (receiveLoop rest err ?s2))"
        using "3.IH" True d Returned by auto
      with e1 e2 have "extends_by {UserAction, BatcherAction} s (snd (receiveLoop rest err ?s2))"
        by (blast intro: extends_by_trans)
      with True d Returned show ?thesis by simp
    qed
  qed
qed

section \<open>Properties of the ack batcher\<close>

lemma queueAcks_below:
  "length (pendingAcks s) + length ids < ackBatchSize \<Longrightarrow>
   queueAcks ids s =
     s\<lparr>pendingAcks := pendingAcks s @ ids,
       ackTimer := (if ids \<noteq> [] \<and> ackTimer s = None then Some ackFlushIntervalMs else ackTimer s),
       trace := trace s @ (if ids \<noteq> [] \<and> ackTimer s = None then [AfterFunc ackFlushIntervalMs] else [])\<rparr>"
proof (induction ids arbitrary: s)
  case Nil
  then show ?case by (simp add: queueAcks_def)
next
  case (Cons a ids)
  let ?s1 = "queueAck a s"
  from Cons.prems have small: "\<not> Suc (length (pendingAcks s)) \<ge> ackBatchSize" by simp
  then have s1: "?s1 = s\<lparr>pendingAcks := pendingAcks s @ [a],
             ackTimer := (if ackTimer s = None then Some ackFlushIntervalMs else ackTimer s),
             trace := trace s @ (if ackTimer s = None then [AfterFunc ackFlushIntervalMs] else [])\<rparr>"
    by (simp add: queueAck_step)
  from Cons.prems s1 have "length (pendingAcks ?s1) + length ids < ackBatchSize" by simp
  then have "queueAcks ids ?s1 = ?s1\<lparr>pendingAcks := pendingAcks ?s1 @ ids,
       ackTimer := (if ids \<noteq> [] \<and> ackTimer ?s1 = None then Some ackFlushIntervalMs else ackTimer ?s1),
       trace := trace ?s1 @ (if ids \<noteq> [] \<and> ackTimer ?s1 = None then [AfterFunc ackFlushIntervalMs] else [])\<rparr>"
    by (rule Cons.IH)
  moreover have "queueAcks (a # ids) s = queueAcks ids ?s1" by (simp add: queueAcks_def)
  ultimately show ?case by (simp add: s1)
qed

lemma queueAcks_snoc: "queueAcks (ids @ [a]) s = queueAck a (queueAcks ids s)"
  by (simp add: queueAcks_def)

lemma queueAcks_full:
  assumes "pendingAcks s = []" and "length ids = ackBatchSize"
  shows "queueAcks ids s =
     s\<lparr>pendingAcks := [], ackTimer := None,
       trace := trace s @ (if ackTimer s = None then [AfterFunc ackFlushIntervalMs] else [])
                  @ [TimerStop, AckEvents ids]\<rparr>"
proof -
  from assms(2) have ne: "ids \<noteq> []" by (auto simp: ackBatchSize_def)
  then have ids: "ids = butlast ids @ [last ids]" by simp
  have len: "length (butlast ids) = 9" using assms(2) by (simp add: ackBatchSize_def)
  have bne: "butlast ids \<noteq> []" using len by (cases "butlast ids") simp_all
  have "length (pendingAcks s) + length (butlast ids) < ackBatchSize"
    using assms(1) len by (simp add: ackBatchSize_def)
  then have b: "queueAcks (butlast ids) s =
     s\<lparr>pendingAcks := pendingAcks s @ butlast ids,
       ackTimer := (if butlast ids \<noteq> [] \<and> ackTimer s = None then Some ackFlushIntervalMs else ackTimer s),
       trace := trace s @ (if butlast ids \<noteq> [] \<and> ackTimer s = None then [AfterFunc ackFlushIntervalMs] else [])\<rparr>"
    by (rule queueAcks_below)
  have "queueAcks ids s = queueAck (last ids) (queueAcks (butlast ids) s)"
    using ids queueAcks_snoc by metis
  also have "\<dots> = s\<lparr>pendingAcks := [], ackTimer := None,
       trace := trace s @ (if ackTimer s = None then [AfterFunc ackFlushIntervalMs] else [])
                  @ [TimerStop, AckEvents (butlast ids @ [last ids])]\<rparr>"
    using assms(1) len bne by (auto simp add: b queueAck_step ackBatchSize_def)
  finally show ?thesis using ids by simp
qed

text \<open>
  C3. A call of \<^verbatim>\<open>queueAck\<close> appends the identifier; when that brings the list to the
  threshold of 10 the same call flushes: the list with the new identifier at its end goes
  out in one acknowledgment request, the timer is stopped and nothing is left pending.
  Below the threshold the identifier stays pending and a timer for the flush interval is
  armed unless one is armed already. So from an empty list ten calls in a row end with one
  request carrying exactly the ten identifiers in their order, and fewer than ten calls
  send nothing.
\<close>

theorem queueAck_batches:
  "queueAck eventID s =
     (if Suc (length (pendingAcks s)) \<ge> ackBatchSize
      then s\<lparr>pendingAcks := [], ackTimer := None,
             trace := trace s @ (if ackTimer s \<noteq> None then [TimerStop] else [])
                        @ [AckEvents (pendingAcks s @ [eventID])]\<rparr>
      else s\<lparr>pendingAcks := pendingAcks s @ [eventID],
             ackTimer := (if ackTimer s = None then Some ackFlushIntervalMs else ackTimer s),
             trace := trace s @ (if ackTimer s = None then [AfterFunc ackFlushIntervalMs] else [])\<rparr>)
   \<and> ackBatchSize = 10
   \<and> (pendingAcks s = [] \<longrightarrow> length ids = 10 \<longrightarrow>
        queueAcks ids s =
          s\<lparr>pendingAcks := [], ackTimer := None,
            trace := trace s @ (if ackTimer s = None then [AfterFunc ackFlushIntervalMs] else [])
                       @ [TimerStop, AckEvents ids]\<rparr>)
   \<and> (pendingAcks s = [] \<longrightarrow> length ids < 10 \<longrightarrow>
        pendingAcks (queueAcks ids s) = ids
        \<and> acked (trace (queueAcks ids s)) = acked (trace s))"
proof (intro conjI impI)
  show "queueAck eventID s =
     (if Suc (length (pendingAcks s)) \<ge> ackBatchSize
      then s\<lparr>pendingAcks := [], ackTimer := None,
             trace := trace s @ (if ackTimer s \<noteq> None then [TimerStop] else [])
                        @ [AckEvents (pendingAcks s @ [eventID])]\<rparr>
      else s\<lparr>pendingAcks := pendingAcks s @ [eventID],
             ackTimer := (if ackTimer s = None then Some ackFlushIntervalMs else ackTimer s),
             trace := trace s @ (if ackTimer s = None then [AfterFunc ackFlushIntervalMs] else [])\<rparr>)"
    by (rule queueAck_step)
  show "ackBatchSize = 10"
    by (simp add: ackBatchSize_def)
next
  assume "pendingAcks s = []" and "length ids = 10"
  then show "queueAcks ids s =
          s\<lparr>pendingAcks := [], ackTimer := None,
            trace := trace s @ (if ackTimer s = None then [AfterFunc ackFlushIntervalMs] else [])
                       @ [TimerStop, AckEvents ids]\<rparr>"
    by (simp add: queueAcks_full ackBatchSize_def)
next
  assume a: "pendingAcks s = []" "length ids < 10"
  then show "pendingAcks (queueAcks ids s) = ids"
    by (simp add: queueAcks_below ackBatchSize_def)
  from a show "acked (trace (queueAcks ids s)) = acked (trace s)"
    by (simp add: queueAcks_below ackBatchSize_def acked_def)
qed

theorem queueAck_batches_witness:
  "pendingAcks (ex_streamer ex_handlers) = []
   \<and> length ex_ten_ids = 10
   \<and> pendingAcks (queueAcks ex_ten_ids (ex_streamer ex_handlers)) = []
   \<and> trace (queueAcks ex_ten_ids (ex_streamer ex_handlers)) =
       [AfterFunc ackFlushIntervalMs, TimerStop, AckEvents ex_ten_ids]
   \<and> length ex_three_ids < 10
   \<and> pendingAcks (queueAcks ex_three_ids (ex_streamer ex_handlers)) = ex_three_ids
   \<and> acked (trace (queueAcks ex_three_ids (ex_streamer ex_handlers))) = []"
proof -
  have p: "pendingAcks (ex_streamer ex_handlers) = []"
    and t: "trace (ex_streamer ex_handlers) = []"
    and k: "ackTimer (ex_streamer ex_handlers) = None"
    by (simp_all add: ex_streamer_def)
  have l10: "length ex_ten_ids = 10"
    by (simp add: ex_ten_ids_def)
  have l3: "length ex_three_ids < 10"
    by (simp add: ex_three_ids_def)
  from queueAck_batches [of "hd ex_ten_ids" "ex_streamer ex_handlers" ex_ten_ids] p l10
  have "queueAcks ex_ten_ids (ex_streamer ex_handlers) =
      (ex_streamer ex_handlers)
        \<lparr>pendingAcks := [], ackTimer := None,
         trace := trace (ex_streamer ex_handlers)
           @ (if ackTimer (ex_streamer ex_handlers) = None then [AfterFunc ackFlushIntervalMs] else [])
           @ [TimerStop, AckEvents ex_ten_ids]\<rparr>"
    by blast
  then have full: "pendingAcks (queueAcks ex_ten_ids (ex_streamer ex_handlers)) = []
     \<and> trace (queueAcks ex_ten_ids (ex_streamer ex_handlers)) =
       [AfterFunc ackFlushIntervalMs, TimerStop, AckEvents ex_ten_ids]"
    by (simp add: t k)
  from queueAck_batches [of "hd ex_ten_ids" "ex_streamer ex_handlers" ex_three_ids] p l3
  have "pendingAcks (queueAcks ex_three_ids (ex_streamer ex_handlers)) = ex_three_ids
     \<and> acked (trace (queueAcks ex_three_ids (ex_streamer ex_handlers)))
         = acked (trace (ex_streamer ex_handlers))"
    by blast
  then have part: "pendingAcks (queueAcks ex_three_ids (ex_streamer ex_handlers)) = ex_three_ids
     \<and> acked (trace (queueAcks ex_three_ids (ex_streamer ex_handlers))) = []"
    by (simp add: t acked_def)
  from p l10 l3 full part show ?thesis by simp
qed

text \<open>
  C10. A flush with nothing pending changes nothing: the streamer after it is the streamer
  before it, so no request is sent and the timer is as it was. A flush with identifiers
  pending sends them in one request, stops an armed timer and leaves nothing pending. No
  flush ever sends a request with no identifiers.
\<close>

theorem flush_empty_noop:
  "(pendingAcks s = [] \<longrightarrow> flushAcks s = s \<and> flushAcksLocked s = s)
   \<and> (pendingAcks s \<noteq> [] \<longrightarrow>
        flushAcks s =
          s\<lparr>pendingAcks := [], ackTimer := None,
            trace := trace s @ (if ackTimer s \<noteq> None then [TimerStop] else [])
                       @ [AckEvents (pendingAcks s)]\<rparr>)
   \<and> acked (trace (flushAcks s)) = acked (trace s) @ (if pendingAcks s = [] then [] else [pendingAcks s])
   \<and> acked (trace (flushAcksLocked s)) = acked (trace (flushAcks s))"
  by (simp add: flushAcks_def flushAcksLocked_empty flushAcksLocked_nonempty acked_flushAcksLocked)

theorem flush_empty_noop_witness:
  "pendingAcks ((ex_streamer ex_handlers)\<lparr>ackTimer := Some ackFlushIntervalMs\<rparr>) = []
   \<and> ackTimer (flushAcks ((ex_streamer ex_handlers)\<lparr>ackTimer := Some ackFlushIntervalMs\<rparr>))
       = Some ackFlushIntervalMs
   \<and> trace (flushAcks ((ex_streamer ex_handlers)\<lparr>ackTimer := Some ackFlushIntervalMs\<rparr>)) = []
   \<and> pendingAcks ex_streamer_pending \<noteq> []
   \<and> pendingAcks (flushAcks ex_streamer_pending) = []
   \<and> ackTimer (flushAcks ex_streamer_pending) = None
   \<and> trace (flushAcks ex_streamer_pending) = [TimerStop, AckEvents [''a'', ''b'', ''c'']]"
  using flush_empty_noop [of "(ex_streamer ex_handlers)\<lparr>ackTimer := Some ackFlushIntervalMs\<rparr>"]
    flush_empty_noop [of ex_streamer_pending]
  by (simp add: ex_streamer_def ex_streamer_pending_def)

section \<open>Properties of a stream session\<close>

text \<open>
  C5. An event of the heartbeat type is passed over whole, whatever the handlers, the ack
  mode, its identifier and its payload: the loop goes on to the next step with the very
  same streamer, so no callback was called, nothing was written to the trace and nothing
  was queued for acknowledgment. A session that receives one heartbeat and ends leaves the
  streamer as it found it.
\<close>

theorem heartbeat_skipped:
  assumes "event_Type event = EVENT_TYPE_HEARTBEAT"
  shows "receiveLoop (Receive None event # rest) err s = receiveLoop rest err s
    \<and> receiveLoop [Receive None event] err s = (Returned err, s)
    \<and> receiveLoop (Receive (Some ctxErr) event # rest) err s = (Returned (Some ctxErr), s)"
  using assms by simp

theorem heartbeat_skipped_witness:
  "event_Type ex_heartbeat = EVENT_TYPE_HEARTBEAT
   \<and> event_Id ex_heartbeat = ''hb''
   \<and> AckMode (handlers (ex_streamer ex_handlers)) = AckModeAuto
   \<and> receiveLoop [Receive None ex_heartbeat] None (ex_streamer ex_handlers)
       = (Returned None, ex_streamer ex_handlers)
   \<and> AckMode (handlers (ex_streamer (ex_handlers\<lparr>AckMode := AckModeManual\<rparr>))) = AckModeManual
   \<and> receiveLoop [Receive None ex_heartbeat] None (ex_streamer (ex_handlers\<lparr>AckMode := AckModeManual\<rparr>))
       = (Returned None, ex_streamer (ex_handlers\<lparr>AckMode := AckModeManual\<rparr>))"
  using heartbeat_skipped [of ex_heartbeat "[]" None "ex_streamer ex_handlers"]
    heartbeat_skipped [of ex_heartbeat "[]" None "ex_streamer (ex_handlers\<lparr>AckMode := AckModeManual\<rparr>)"]
  by (simp add: ex_heartbeat_def ex_streamer_def ex_handlers_def setDefaults_def
      AckModeAuto_def AckModeManual_def)

lemma invoke_opt_spec_call: "invoke_opt label cb p s = spec_call label cb p s"
  by (simp add: invoke_opt_def spec_call_def invoke_eq split: option.splits)

lemma dispatchEvent_Returned:
  "dispatchSwitch s event = (Returned (), s1) \<Longrightarrow> dispatchEvent s event = (Returned (), s1)"
  by (simp add: dispatchEvent_def)

text \<open>
  C6. An event that is not a heartbeat and has the empty identifier is dispatched and
  nothing else: the loop goes on from the streamer \<^verbatim>\<open>dispatchEvent\<close> leaves, in auto mode as
  in any other, and that streamer has the same pending identifiers and timer as before and
  no new acknowledgment request in its trace. The dispatch goes to the handler of the
  event's own variant: for each of the eight variants the switch is the call of that
  variant's callback field on the payload (the call on the trace under that variant's
  label, the callback run on the user's state), nothing when that field is not set, and
  nothing for any other payload. When the callback returns, the whole step of the loop is
  that call.
\<close>

theorem empty_id_not_acked:
  assumes "event_Type event \<noteq> EVENT_TYPE_HEARTBEAT" and "event_Id event = ''''"
  shows "receiveLoop (Receive None event # rest) err s =
       (case dispatchEvent s event of
          (Panicked r, s1) \<Rightarrow> (Panicked r, s1)
        | (Returned _, s1) \<Rightarrow> receiveLoop rest err s1)
    \<and> snd (receiveLoop [Receive None event] err s) = snd (dispatchEvent s event)
    \<and> pendingAcks (snd (dispatchEvent s event)) = pendingAcks s
    \<and> ackTimer (snd (dispatchEvent s event)) = ackTimer s
    \<and> acked (trace (snd (dispatchEvent s event))) = acked (trace s)
    \<and> (\<forall>p. event_Payload event = Event_EmailSent p \<longrightarrow>
          dispatchSwitch s event = spec_call Call_OnSent (OnSent (handlers s)) p s)
    \<and> (\<forall>p. event_Payload event = Event_EmailDelivered p \<longrightarrow>
          dispatchSwitch s event = spec_call Call_OnDelivered (OnDelivered (handlers s)) p s)
    \<and> (\<forall>p. event_Payload event = Event_EmailBounced p \<longrightarrow>
          dispatchSwitch s event = spec_call Call_OnBounced (OnBounced (handlers s)) p s)
    \<and> (\<forall>p. event_Payload event = Event_EmailComplained p \<longrightarrow>
          dispatchSwitch s event = spec_call Call_OnComplained (OnComplained (handlers s)) p s)
    \<and> (\<forall>p. event_Payload event = Event_EmailRejected p \<longrightarrow>
          dispatchSwitch s event = spec_call Call_OnRejected (OnRejected (handlers s)) p s)
    \<and> (\<forall>p. event_Payload event = Event_EmailDelayed p \<longrightarrow>
          dispatchSwitch s event = spec_call Call_OnDelayed (OnDelayed (handlers s)) p s)
    \<and> (\<forall>p. event_Payload event = Event_EmailReplied p \<longrightarrow>
          dispatchSwitch s event = spec_call Call_OnReplied (OnReplied (handlers s)) p s)
    \<and> (\<forall>p. event_Payload event = Event_EmailFailed p \<longrightarrow>
          dispatchSwitch s event = spec_call Call_OnFailed (OnFailed (handlers s)) p s)
    \<and> (event_Payload event = Payload_Other \<longrightarrow> dispatchSwitch s event = (Returned (), s))
    \<and> (\<forall>s1. dispatchSwitch s event = (Returned (), s1) \<longrightarrow>
          dispatchEvent s event = (Returned (), s1)
          \<and> receiveLoop [Receive None event] err s = (Returned err, s1)
          \<and> receiveLoop (Receive None event # rest) err s = receiveLoop rest err s1)"
proof (intro conjI)
  show "receiveLoop (Receive None event # rest) err s =
       (case dispatchEvent s event of
          (Panicked r, s1) \<Rightarrow> (Panicked r, s1)
        | (Returned _, s1) \<Rightarrow> receiveLoop rest err s1)"
    using assms by (simp split: prod.splits outcome.splits)
  show "snd (receiveLoop [Receive None event] err s) = snd (dispatchEvent s event)"
    using assms by (simp split: prod.splits outcome.splits)
  show "pendingAcks (snd (dispatchEvent s event)) = pendingAcks s"
    using dispatchEvent_frame(2) [of s event] by (simp add: keeps_batch_def)
  show "ackTimer (snd (dispatchEvent s event)) = ackTimer s"
    using dispatchEvent_frame(2) [of s event] by (simp add: keeps_batch_def)
  show "acked (trace (snd (dispatchEvent s event))) = acked (trace s)"
    unfolding acked_def
    by (rule extends_by_collect [OF dispatchEvent_frame(1)]) (auto simp: silent_on_def elim: kind_of.elims)
  show "\<forall>p. event_Payload event = Event_EmailSent p \<longrightarrow>
          dispatchSwitch s event = spec_call Call_OnSent (OnSent (handlers s)) p s"
    by (simp add: dispatchSwitch_def invoke_opt_spec_call)
  show "\<forall>p. event_Payload event = Event_EmailDelivered p \<longrightarrow>
          dispatchSwitch s event = spec_call Call_OnDelivered (OnDelivered (handlers s)) p s"
    by (simp add: dispatchSwitch_def invoke_opt_spec_call)
  show "\<forall>p. event_Payload event = Event_EmailBounced p \<longrightarrow>
          dispatchSwitch s event = spec_call Call_OnBounced (OnBounced (handlers s)) p s"
    by (simp add: dispatchSwitch_def invoke_opt_spec_call)
  show "\<forall>p. event_Payload event = Event_EmailComplained p \<longrightarrow>
          dispatchSwitch s event = spec_call Call_OnComplained (OnComplained (handlers s)) p s"
    by (simp add: dispatchSwitch_def invoke_opt_spec_call)
  show "\<forall>p. event_Payload event = Event_EmailRejected p \<longrightarrow>
          dispatchSwitch s event = spec_call Call_OnRejected (OnRejected (handlers s)) p s"
    by (simp add: dispatchSwitch_def invoke_opt_spec_call)
  show "\<forall>p. event_Payload event = Event_EmailDelayed p \<longrightarrow>
          dispatchSwitch s event = spec_call Call_OnDelayed (OnDelayed (handlers s)) p s"
    by (simp add: dispatchSwitch_def invoke_opt_spec_call)
  show "\<forall>p. event_Payload event = Event_EmailReplied p \<longrightarrow>
          dispatchSwitch s event = spec_call Call_OnReplied (OnReplied (handlers s)) p s"
    by (simp add: dispatchSwitch_def invoke_opt_spec_call)
  show "\<forall>p. event_Payload event = Event_EmailFailed p \<longrightarrow>
          dispatchSwitch s event = spec_call Call_OnFailed (OnFailed (handlers s)) p s"
    by (simp add: dispatchSwitch_def invoke_opt_spec_call)
  show "event_Payload event = Payload_Other \<longrightarrow> dispatchSwitch s event = (Returned (), s)"
    by (simp add: dispatchSwitch_def)
  show "\<forall>s1. dispatchSwitch s event = (Returned (), s1) \<longrightarrow>
          dispatchEvent s event = (Returned (), s1)
          \<and> receiveLoop [Receive None event] err s = (Returned err, s1)
          \<and> receiveLoop (Receive None event # rest) err s = receiveLoop rest err s1"
    using assms by (simp add: dispatchEvent_Returned)
qed

theorem empty_id_not_acked_witness:
  "event_Type ex_sent_no_id \<noteq> EVENT_TYPE_HEARTBEAT
   \<and> event_Id ex_sent_no_id = ''''
   \<and> event_Payload ex_sent_no_id = Event_EmailSent ''to-c''
   \<and> AckMode (handlers (ex_streamer ex_handlers)) = AckModeAuto
   \<and> dispatchSwitch (ex_streamer ex_handlers) ex_sent_no_id =
       (Returned (), (ex_streamer ex_handlers)\<lparr>user := 1, trace := [Call_OnSent ''to-c'']\<rparr>)
   \<and> receiveLoop [Receive None ex_sent_no_id] None (ex_streamer ex_handlers) =
       (Returned None, (ex_streamer ex_handlers)\<lparr>user := 1, trace := [Call_OnSent ''to-c'']\<rparr>)
   \<and> trace (snd (dispatchEvent (ex_streamer ex_handlers) ex_sent_no_id)) = [Call_OnSent ''to-c'']
   \<and> trace (snd (receiveLoop [Receive None ex_sent_no_id] None (ex_streamer ex_handlers)))
       = [Call_OnSent ''to-c'']
   \<and> user (snd (receiveLoop [Receive None ex_sent_no_id] None (ex_streamer ex_handlers))) = 1
   \<and> pendingAcks (snd (receiveLoop [Receive None ex_sent_no_id] None (ex_streamer ex_handlers))) = []
   \<and> trace (snd (receiveLoop [Receive None ex_sent] None (ex_streamer ex_handlers)))
       = [Call_OnSent ''to-a'', AfterFunc ackFlushIntervalMs]
   \<and> pendingAcks (snd (receiveLoop [Receive None ex_sent] None (ex_streamer ex_handlers))) = [''e1'']"
proof -
  let ?s1 = "(ex_streamer ex_handlers)\<lparr>user := 1, trace := [Call_OnSent ''to-c'']\<rparr>"
  have d2: "dispatchEvent (ex_streamer ex_handlers) ex_sent =
      (Returned (), (ex_streamer ex_handlers)\<lparr>user := 1, trace := [Call_OnSent ''to-a'']\<rparr>)"
    by (simp add: dispatchEvent_def dispatchSwitch_def invoke_opt_def invoke_eq ex_sent_def
        ex_streamer_def ex_handlers_def setDefaults_def)
  have m: "AckMode (handlers (ex_streamer ex_handlers)) = AckModeAuto"
    by (simp add: ex_streamer_def ex_handlers_def setDefaults_def)
  have t: "event_Type ex_sent_no_id \<noteq> EVENT_TYPE_HEARTBEAT" "event_Id ex_sent_no_id = ''''"
    by (simp_all add: ex_sent_no_id_def)
  have pl: "event_Payload ex_sent_no_id = Event_EmailSent ''to-c''"
    by (simp add: ex_sent_no_id_def)
  have sc: "spec_call Call_OnSent (OnSent (handlers (ex_streamer ex_handlers))) ''to-c''
      (ex_streamer ex_handlers) = (Returned (), ?s1)"
    by (simp add: spec_call_def ex_streamer_def ex_handlers_def setDefaults_def)
  note th = empty_id_not_acked [OF t, of "[]" None "ex_streamer ex_handlers"]
  have sw: "dispatchSwitch (ex_streamer ex_handlers) ex_sent_no_id = (Returned (), ?s1)"
    using th [THEN conjunct2, THEN conjunct2, THEN conjunct2, THEN conjunct2, THEN conjunct2,
        THEN conjunct1, rule_format, OF pl]
    by (simp only: sc)
  note step = th [THEN conjunct2, THEN conjunct2, THEN conjunct2, THEN conjunct2, THEN conjunct2,
      THEN conjunct2, THEN conjunct2, THEN conjunct2, THEN conjunct2, THEN conjunct2,
      THEN conjunct2, THEN conjunct2, THEN conjunct2, THEN conjunct2, rule_format, OF sw]
  have d: "dispatchEvent (ex_streamer ex_handlers) ex_sent_no_id = (Returned (), ?s1)"
    by (rule step [THEN conjunct1])
  have rl: "receiveLoop [Receive None ex_sent_no_id] None (ex_streamer ex_handlers)
      = (Returned None, ?s1)"
    by (rule step [THEN conjunct2, THEN conjunct1])
  have q: "receiveLoop [Receive None ex_sent] None (ex_streamer ex_handlers) =
      (Returned None, queueAck ''e1'' ((ex_streamer ex_handlers)\<lparr>user := 1, trace := [Call_OnSent ''to-a'']\<rparr>))"
    using d2 m by (simp add: ex_sent_def)
  have c: "trace (snd (receiveLoop [Receive None ex_sent] None (ex_streamer ex_handlers)))
       = [Call_OnSent ''to-a'', AfterFunc ackFlushIntervalMs]
     \<and> pendingAcks (snd (receiveLoop [Receive None ex_sent] None (ex_streamer ex_handlers))) = [''e1'']"
    by (simp only: q) (simp add: queueAck_step ackBatchSize_def ex_streamer_def)
  have e: "trace (snd (dispatchEvent (ex_streamer ex_handlers) ex_sent_no_id)) = [Call_OnSent ''to-c'']
     \<and> trace (snd (receiveLoop [Receive None ex_sent_no_id] None (ex_streamer ex_handlers)))
         = [Call_OnSent ''to-c'']
     \<and> user (snd (receiveLoop [Receive None ex_sent_no_id] None (ex_streamer ex_handlers))) = 1
     \<and> pendingAcks (snd (receiveLoop [Receive None ex_sent_no_id] None (ex_streamer ex_handlers))) = []"
    by (simp only: d rl snd_conv) (simp add: ex_streamer_def)
  from t pl m sw rl c e show ?thesis by simp
qed

subsection \<open>Panics of callbacks\<close>

lemma dispatchSwitch_onErrors:
  "onErrors (trace (snd (dispatchSwitch s event))) = onErrors (trace s)"
  by (simp add: dispatchSwitch_def invoke_opt_def invoke_eq onErrors_def
      split: Event_Payload.splits option.splits)

lemma handlerPanicError_internal:
  "\<exists>e. handlerPanicError = Sdk e \<and> Is e ErrCodeInternal \<and> IsCategory e CategoryInternal"
  by (simp add: handlerPanicError_def Is_def IsCategory_def ErrCodeInternal_def category_names)

text \<open>
  C1, as amended. Let the callback that the switch of \<^verbatim>\<open>dispatchEvent\<close> calls panic with \<open>r\<close>,
  leaving the streamer \<open>s1\<close>. The switch has not called \<^verbatim>\<open>OnError\<close> and has kept the handlers,
  the pending identifiers and the timer. With no \<^verbatim>\<open>OnError\<close> set, \<^verbatim>\<open>dispatchEvent\<close> returns
  and has only written the log line. With an \<^verbatim>\<open>OnError\<close> that returns, it returns after one
  call of \<^verbatim>\<open>OnError\<close>, with the internal error, and the log line. With an \<^verbatim>\<open>OnError\<close> that panics
  itself, that second panic leaves \<^verbatim>\<open>dispatchEvent\<close> after the one call. Whenever
  \<^verbatim>\<open>dispatchEvent\<close> has returned, the receive loop goes on as after any event: it queues the
  identifier in auto mode and takes the next step.
\<close>

theorem dispatchEvent_recovers:
  assumes "dispatchSwitch s event = (Panicked r, s1)"
  shows "(OnError (handlers s) = None \<longrightarrow>
        dispatchEvent s event =
          (Returned (), s1\<lparr>trace := trace s1 @ [Log (''emailapi: panic in event handler: '' @ r)]\<rparr>))
    \<and> (\<forall>f u2. OnError (handlers s) = Some f \<longrightarrow> f handlerPanicError (user s1) = (Returned (), u2) \<longrightarrow>
        dispatchEvent s event =
          (Returned (),
           s1\<lparr>user := u2,
              trace := trace s1 @ [Call_OnError handlerPanicError,
                                   Log (''emailapi: panic in event handler: '' @ r)]\<rparr>))
    \<and> (\<forall>f r2 u2. OnError (handlers s) = Some f \<longrightarrow> f handlerPanicError (user s1) = (Panicked r2, u2) \<longrightarrow>
        dispatchEvent s event =
          (Panicked r2, s1\<lparr>user := u2, trace := trace s1 @ [Call_OnError handlerPanicError]\<rparr>))
    \<and> onErrors (trace s1) = onErrors (trace s)
    \<and> handlers s1 = handlers s \<and> pendingAcks s1 = pendingAcks s \<and> ackTimer s1 = ackTimer s
    \<and> (\<exists>e. handlerPanicError = Sdk e \<and> Is e ErrCodeInternal \<and> IsCategory e CategoryInternal)
    \<and> (\<forall>s2. dispatchEvent s event = (Returned (), s2) \<longrightarrow> event_Type event \<noteq> EVENT_TYPE_HEARTBEAT \<longrightarrow>
        receiveLoop (Receive None event # rest) err s =
          receiveLoop rest err
            (if AckMode (handlers s) = AckModeAuto \<and> event_Id event \<noteq> ''''
             then queueAck (event_Id event) s2 else s2))"
proof -
  have h: "handlers s1 = handlers s"
    using dispatchSwitch_frame(1) [of s event] assms by (simp add: extends_by_def)
  have k: "pendingAcks s1 = pendingAcks s \<and> ackTimer s1 = ackTimer s"
    using dispatchSwitch_frame(2) [of s event] assms by (simp add: keeps_batch_def)
  have o: "onErrors (trace s1) = onErrors (trace s)"
    using dispatchSwitch_onErrors [of s event] assms by simp
  have c1: "OnError (handlers s) = None \<longrightarrow>
        dispatchEvent s event =
          (Returned (), s1\<lparr>trace := trace s1 @ [Log (''emailapi: panic in event handler: '' @ r)]\<rparr>)"
    using assms h by (simp add: dispatchEvent_def invoke_opt_def emit_def)
  have c2: "\<forall>f u2. OnError (handlers s) = Some f \<longrightarrow> f handlerPanicError (user s1) = (Returned (), u2) \<longrightarrow>
        dispatchEvent s event =
          (Returned (),
           s1\<lparr>user := u2,
              trace := trace s1 @ [Call_OnError handlerPanicError,
                                   Log (''emailapi: panic in event handler: '' @ r)]\<rparr>)"
    using assms h by (simp add: dispatchEvent_def invoke_opt_def invoke_eq emit_def)
  have c3: "\<forall>f r2 u2. OnError (handlers s) = Some f \<longrightarrow> f handlerPanicError (user s1) = (Panicked r2, u2) \<longrightarrow>
        dispatchEvent s event =
          (Panicked r2, s1\<lparr>user := u2, trace := trace s1 @ [Call_OnError handlerPanicError]\<rparr>)"
    using assms h by (simp add: dispatchEvent_def invoke_opt_def invoke_eq emit_def)
  have c4: "\<forall>s2. dispatchEvent s event = (Returned (), s2) \<longrightarrow> event_Type event \<noteq> EVENT_TYPE_HEARTBEAT \<longrightarrow>
        receiveLoop (Receive None event # rest) err s =
          receiveLoop rest err
            (if AckMode (handlers s) = AckModeAuto \<and> event_Id event \<noteq> ''''
             then queueAck (event_Id event) s2 else s2)"
  proof (intro allI impI)
    fix s2
    assume d: "dispatchEvent s event = (Returned (), s2)"
      and t: "event_Type event \<noteq> EVENT_TYPE_HEARTBEAT"
    have "handlers s2 = handlers s"
      using dispatchEvent_frame(1) [of s event] d by (simp add: extends_by_def)
    with d t show "receiveLoop (Receive None event # rest) err s =
          receiveLoop rest err
            (if AckMode (handlers s) = AckModeAuto \<and> event_Id event \<noteq> ''''
             then queueAck (event_Id event) s2 else s2)"
      by simp
  qed
  from c1 c2 c3 o h k handlerPanicError_internal c4 show ?thesis by blast
qed

lemma ex_bounced_switch:
  "dispatchSwitch (ex_streamer hs) ex_bounced =
     invoke_opt Call_OnBounced (OnBounced hs) ''to-b'' (ex_streamer hs)"
  by (simp add: dispatchSwitch_def ex_bounced_def ex_streamer_def setDefaults_def Let_def)

theorem dispatchEvent_recovers_witness:
  "dispatchSwitch (ex_streamer ex_handlers_no_OnError) ex_bounced =
       (Panicked ''boom'', (ex_streamer ex_handlers_no_OnError)\<lparr>user := 1, trace := [Call_OnBounced ''to-b'']\<rparr>)
   \<and> OnError (handlers (ex_streamer ex_handlers_no_OnError)) = None
   \<and> dispatchEvent (ex_streamer ex_handlers_no_OnError) ex_bounced =
       (Returned (),
        (ex_streamer ex_handlers_no_OnError)
          \<lparr>user := 1,
           trace := [Call_OnBounced ''to-b'', Log ''emailapi: panic in event handler: boom'']\<rparr>)
   \<and> dispatchSwitch (ex_streamer ex_handlers) ex_bounced =
       (Panicked ''boom'', (ex_streamer ex_handlers)\<lparr>user := 1, trace := [Call_OnBounced ''to-b'']\<rparr>)
   \<and> dispatchEvent (ex_streamer ex_handlers) ex_bounced =
       (Returned (),
        (ex_streamer ex_handlers)
          \<lparr>user := 101,
           trace := [Call_OnBounced ''to-b'', Call_OnError handlerPanicError,
                     Log ''emailapi: panic in event handler: boom'']\<rparr>)
   \<and> event_Type ex_bounced \<noteq> EVENT_TYPE_HEARTBEAT
   \<and> receiveLoop [Receive None ex_bounced, Receive None ex_bounced] None (ex_streamer ex_handlers) =
       receiveLoop [Receive None ex_bounced] None
         (queueAck ''e2''
           ((ex_streamer ex_handlers)
              \<lparr>user := 101,
               trace := [Call_OnBounced ''to-b'', Call_OnError handlerPanicError,
                         Log ''emailapi: panic in event handler: boom'']\<rparr>))
   \<and> dispatchSwitch (ex_streamer ex_handlers_bad_OnError) ex_bounced =
       (Panicked ''boom'', (ex_streamer ex_handlers_bad_OnError)\<lparr>user := 1, trace := [Call_OnBounced ''to-b'']\<rparr>)
   \<and> dispatchEvent (ex_streamer ex_handlers_bad_OnError) ex_bounced =
       (Panicked ''again'',
        (ex_streamer ex_handlers_bad_OnError)
          \<lparr>user := 101, trace := [Call_OnBounced ''to-b'', Call_OnError handlerPanicError]\<rparr>)"
proof -
  have s0: "dispatchSwitch (ex_streamer ex_handlers_no_OnError) ex_bounced =
       (Panicked ''boom'', (ex_streamer ex_handlers_no_OnError)\<lparr>user := 1, trace := [Call_OnBounced ''to-b'']\<rparr>)"
    by (simp add: ex_bounced_switch invoke_opt_def invoke_eq ex_handlers_no_OnError_def ex_handlers_def)
      (simp add: ex_streamer_def)
  have s1: "dispatchSwitch (ex_streamer ex_handlers) ex_bounced =
       (Panicked ''boom'', (ex_streamer ex_handlers)\<lparr>user := 1, trace := [Call_OnBounced ''to-b'']\<rparr>)"
    by (simp add: ex_bounced_switch invoke_opt_def invoke_eq ex_handlers_def)
      (simp add: ex_streamer_def)
  have s2: "dispatchSwitch (ex_streamer ex_handlers_bad_OnError) ex_bounced =
       (Panicked ''boom'', (ex_streamer ex_handlers_bad_OnError)\<lparr>user := 1, trace := [Call_OnBounced ''to-b'']\<rparr>)"
    by (simp add: ex_bounced_switch invoke_opt_def invoke_eq ex_handlers_bad_OnError_def ex_handlers_def)
      (simp add: ex_streamer_def)
  have t: "event_Type ex_bounced \<noteq> EVENT_TYPE_HEARTBEAT"
    by (simp add: ex_bounced_def)
  have w0: "OnError (handlers (ex_streamer ex_handlers_no_OnError)) = None
    \<and> dispatchEvent (ex_streamer ex_handlers_no_OnError) ex_bounced =
       (Returned (),
        (ex_streamer ex_handlers_no_OnError)
          \<lparr>user := 1,
           trace := [Call_OnBounced ''to-b'', Log ''emailapi: panic in event handler: boom'']\<rparr>)"
    using dispatchEvent_recovers [OF s0, of "[]" None]
    by (simp add: ex_streamer_def ex_handlers_no_OnError_def ex_handlers_def setDefaults_def)
  have w1: "dispatchEvent (ex_streamer ex_handlers) ex_bounced =
       (Returned (),
        (ex_streamer ex_handlers)
          \<lparr>user := 101,
           trace := [Call_OnBounced ''to-b'', Call_OnError handlerPanicError,
                     Log ''emailapi: panic in event handler: boom'']\<rparr>)"
    using dispatchEvent_recovers [OF s1, of "[]" None]
    by (simp add: ex_streamer_def ex_handlers_def setDefaults_def)
  have w1': "receiveLoop [Receive None ex_bounced, Receive None ex_bounced] None (ex_streamer ex_handlers) =
       receiveLoop [Receive None ex_bounced] None
         (queueAck ''e2''
           ((ex_streamer ex_handlers)
              \<lparr>user := 101,
               trace := [Call_OnBounced ''to-b'', Call_OnError handlerPanicError,
                         Log ''emailapi: panic in event handler: boom'']\<rparr>))"
    using dispatchEvent_recovers [OF s1, of "[Receive None ex_bounced]" None] w1 t
    by (simp add: ex_streamer_def ex_handlers_def setDefaults_def ex_bounced_def AckModeAuto_def)
  have w2: "dispatchEvent (ex_streamer ex_handlers_bad_OnError) ex_bounced =
       (Panicked ''again'',
        (ex_streamer ex_handlers_bad_OnError)
          \<lparr>user := 101, trace := [Call_OnBounced ''to-b'', Call_OnError handlerPanicError]\<rparr>)"
    using dispatchEvent_recovers [OF s2, of "[]" None]
    by (simp add: ex_streamer_def ex_handlers_bad_OnError_def ex_handlers_def setDefaults_def)
  from s0 s1 s2 t w0 w1 w1' w2 show ?thesis by simp
qed

text \<open>
  The claim C1 as it is written fails when \<^verbatim>\<open>OnError\<close> panics too: the callback for the
  bounced event panics, the deferred call recovers that panic and calls \<^verbatim>\<open>OnError\<close>, whose own
  panic leaves \<^verbatim>\<open>dispatchEvent\<close>, the session and the goroutine; the event that follows is
  never dispatched and the identifier waiting for acknowledgment is never sent.
\<close>

theorem dispatchEvent_OnError_panics_counterexample:
  "fst (dispatchSwitch (ex_streamer ex_handlers_bad_OnError) ex_bounced) = Panicked ''boom''
   \<and> fst (dispatchEvent (ex_streamer ex_handlers_bad_OnError) ex_bounced) \<noteq> Returned ()
   \<and> fst (OnReceive ex_handlers_bad_OnError 0 [ex_attempt [ex_sent, ex_bounced, ex_sent] None])
       = Crashed ''again''
   \<and> trace (snd (OnReceive ex_handlers_bad_OnError 0 [ex_attempt [ex_sent, ex_bounced, ex_sent] None]))
       = [StreamEvents 10, Call_OnSent ''to-a'', AfterFunc ackFlushIntervalMs,
          Call_OnBounced ''to-b'', Call_OnError handlerPanicError, StreamClose]
   \<and> pendingAcks (snd (OnReceive ex_handlers_bad_OnError 0 [ex_attempt [ex_sent, ex_bounced, ex_sent] None]))
       = [''e1'']"
  by (simp add: OnReceive_def run_def stream_def ex_attempt_def dispatchEvent_def dispatchSwitch_def
      invoke_opt_def invoke_eq emit_def queueAck_step ackBatchSize_def flushAcks_def
      ex_streamer_def ex_handlers_bad_OnError_def ex_handlers_def setDefaults_def
      ex_sent_def ex_bounced_def AckModeAuto_def Let_def)

section \<open>Properties of the orchestration loop\<close>

lemma run_loop_Cons:
  "run_loop (a # rest) d s =
     (case attempt_end a s of
        Inl res \<Rightarrow> res
      | Inr s3 \<Rightarrow> run_loop rest (nextDelay d) (emit (Sleep d) s3))"
  by (simp add: attempt_end_def Let_def split: prod.splits outcome.splits)

declare run_loop.simps(2) [simp del]

lemma stream_frame:
  "extends_by {UserAction, BatcherAction, TransportAction} s (snd (stream a s))"
proof -
  let ?K = "{UserAction, BatcherAction, TransportAction}"
  let ?s0 = "emit (StreamEvents (BatchSize (handlers s))) s"
  have e0: "extends_by ?K s ?s0" by (simp add: extends_by_emit)
  have e1: "extends_by ?K ?s0 (snd (receiveLoop (steps a) (stream_Err a) ?s0))"
    by (rule extends_by_mono [OF receiveLoop_frame]) simp
  have e2: "extends_by ?K s' (emit StreamClose s')" for s' :: "('a, 'b) eventStreamer"
    by (simp add: extends_by_emit)
  show ?thesis
  proof (cases "open_err a")
    case (Some e)
    with e0 show ?thesis by (simp add: stream_def Let_def)
  next
    case None
    obtain r s1 where rl: "receiveLoop (steps a) (stream_Err a) ?s0 = (r, s1)"
      by (cases "receiveLoop (steps a) (stream_Err a) ?s0")
    with e1 have "extends_by ?K ?s0 s1" by simp
    with e0 e2 [of s1] have "extends_by ?K s (emit StreamClose s1)"
      by (blast intro: extends_by_trans)
    with None rl show ?thesis by (simp add: stream_def Let_def)
  qed
qed

lemma flushAcks_frame: "extends_by {UserAction, BatcherAction, TransportAction} s (flushAcks s)"
  unfolding flushAcks_def by (rule extends_by_mono [OF flushAcksLocked_frame]) simp

lemma pendingAcks_flushAcks [simp]: "pendingAcks (flushAcks s) = []"
  by (simp add: flushAcks_def)

lemma attempt_end_frame:
  "case attempt_end a s of
     Inl (res, s') \<Rightarrow> extends_by {UserAction, BatcherAction, TransportAction} s s'
       \<and> (\<forall>d. res \<noteq> Running d) \<and> (res = Stopped \<longrightarrow> pendingAcks s' = [])
   | Inr s3 \<Rightarrow> extends_by {UserAction, BatcherAction, TransportAction} s s3 \<and> pendingAcks s3 = []"
proof -
  let ?K = "{UserAction, BatcherAction, TransportAction}"
  obtain r s1 where st: "stream a s = (r, s1)" by (cases "stream a s")
  have e1: "extends_by ?K s s1" using stream_frame [of s a] st by simp
  have e1f: "extends_by ?K s (flushAcks s1)"
    using e1 flushAcks_frame [of s1] by (blast intro: extends_by_trans)
  show ?thesis
  proof (cases "ctx_done_top a")
    case True
    then show ?thesis by (simp add: attempt_end_def flushAcks_frame)
  next
    case top: False
    show ?thesis
    proof (cases r)
      case (Panicked v)
      with top st e1 show ?thesis by (simp add: attempt_end_def)
    next
      case (Returned err)
      obtain r2 s2 where re: "reportError err s1 = (r2, s2)" by (cases "reportError err s1")
      have "extends_by ?K s1 s2"
        using reportError_frame(1) [of s1 err] re by (auto intro: extends_by_mono)
      with e1 have e2: "extends_by ?K s s2" by (blast intro: extends_by_trans)
      then have e2f: "extends_by ?K s (flushAcks s2)"
        using flushAcks_frame [of s2] by (blast intro: extends_by_trans)
      from top st Returned re e1f e2 e2f show ?thesis
        by (cases r2) (simp_all add: attempt_end_def)
    qed
  qed
qed

lemma silent_sleep_of:
  "k \<in> {UserAction, BatcherAction, TransportAction} \<Longrightarrow> silent_on k sleep_of"
  by (auto simp: silent_on_def elim: kind_of.elims)

lemma sleeps_extends:
  "extends_by {UserAction, BatcherAction, TransportAction} s s' \<Longrightarrow> sleeps (trace s') = sleeps (trace s)"
  unfolding sleeps_def by (erule extends_by_collect) (rule silent_sleep_of)










subsection \<open>Cancellation\<close>

lemma silent_open_of: "k \<in> {UserAction, BatcherAction, SleepAction} \<Longrightarrow> silent_on k open_of"
  by (auto simp: silent_on_def elim: kind_of.elims)

lemma opened_flushAcks: "opened (trace (flushAcks t)) = opened (trace t)"
  unfolding opened_def flushAcks_def
  by (rule extends_by_collect [OF flushAcksLocked_frame]) (simp add: silent_open_of)

lemma sleeps_flushAcks: "sleeps (trace (flushAcks t)) = sleeps (trace t)"
  by (rule sleeps_extends [OF flushAcks_frame])

lemma run_loop_Stopped_pending:
  "fst (run_loop attempts d s) = Stopped \<Longrightarrow> pendingAcks (snd (run_loop attempts d s)) = []"
proof (induction attempts arbitrary: d s)
  case Nil
  then show ?case by simp
next
  case (Cons a rest)
  show ?case
  proof (cases "attempt_end a s")
    case (Inl res)
    obtain rr s' where res: "res = (rr, s')" by (cases res)
    from attempt_end_frame [where a = a and s = s] Inl res
    have "rr = Stopped \<longrightarrow> pendingAcks s' = []" by simp
    with Cons.prems Inl res show ?thesis by (simp add: run_loop_Cons)
  next
    case (Inr s3)
    with Cons show ?thesis by (simp add: run_loop_Cons)
  qed
qed

text \<open>
  C4. When the loop of \<^verbatim>\<open>run\<close> finds the scope cancelled at the top of a pass, after the
  session, or in the \<^verbatim>\<open>select\<close> of the backoff sleep, it returns: the attempts that would
  follow play no part, and the streamer it leaves is the one a flush makes of the streamer
  at that checkpoint. (In the sleep no flush is called; the one before the sleep has
  emptied the list, so a further flush would change nothing.) A flush leaves nothing
  pending, sends what was pending in one request, and opens no stream and sleeps no delay.
  Whenever the goroutine has returned, nothing is pending.
\<close>

theorem cancellation_stops_run:
  "(ctx_done_top a \<longrightarrow> run_loop (a # rest) d s = (Stopped, flushAcks s))
   \<and> (\<not> ctx_done_top a \<longrightarrow> stream a s = (Returned err, s1) \<longrightarrow> ctx_done_post a \<longrightarrow>
        run_loop (a # rest) d s = (Stopped, flushAcks s1))
   \<and> (\<not> ctx_done_top a \<longrightarrow> stream a s = (Returned err, s1) \<longrightarrow> \<not> ctx_done_post a \<longrightarrow>
        reportError err s1 = (Returned (), s2) \<longrightarrow> ctx_done_sleep a \<longrightarrow>
        run_loop (a # rest) d s = (Stopped, flushAcks (flushAcks s2)))
   \<and> pendingAcks (flushAcks t) = []
   \<and> acked (trace (flushAcks t)) = acked (trace t) @ (if pendingAcks t = [] then [] else [pendingAcks t])
   \<and> opened (trace (flushAcks t)) = opened (trace t)
   \<and> sleeps (trace (flushAcks t)) = sleeps (trace t)
   \<and> (fst (run_loop attempts d s) = Stopped \<longrightarrow> pendingAcks (snd (run_loop attempts d s)) = [])"
proof (intro conjI impI)
  assume "ctx_done_top a"
  then show "run_loop (a # rest) d s = (Stopped, flushAcks s)"
    by (simp add: run_loop.simps)
next
  assume "\<not> ctx_done_top a" "stream a s = (Returned err, s1)" "ctx_done_post a"
  then show "run_loop (a # rest) d s = (Stopped, flushAcks s1)"
    by (simp add: run_loop.simps)
next
  assume "\<not> ctx_done_top a" "stream a s = (Returned err, s1)" "\<not> ctx_done_post a"
    "reportError err s1 = (Returned (), s2)" "ctx_done_sleep a"
  then show "run_loop (a # rest) d s = (Stopped, flushAcks (flushAcks s2))"
    by (simp add: run_loop.simps flushAcks_def)
next
  show "pendingAcks (flushAcks t) = []" by simp
  show "acked (trace (flushAcks t)) = acked (trace t) @ (if pendingAcks t = [] then [] else [pendingAcks t])"
    by (simp add: flushAcks_def acked_flushAcksLocked)
  show "opened (trace (flushAcks t)) = opened (trace t)" by (rule opened_flushAcks)
  show "sleeps (trace (flushAcks t)) = sleeps (trace t)" by (rule sleeps_flushAcks)
next
  assume "fst (run_loop attempts d s) = Stopped"
  then show "pendingAcks (snd (run_loop attempts d s)) = []" by (rule run_loop_Stopped_pending)
qed

lemma ex_stream_sent:
  "stream (ex_attempt [ex_sent] err\<lparr>ctx_done_post := p, ctx_done_sleep := q\<rparr>) (ex_streamer ex_handlers) =
     (Returned err,
      (ex_streamer ex_handlers)
        \<lparr>pendingAcks := [''e1''], ackTimer := Some ackFlushIntervalMs, user := 1,
         trace := [StreamEvents 10, Call_OnSent ''to-a'', AfterFunc ackFlushIntervalMs, StreamClose]\<rparr>)"
  by (simp add: stream_def ex_attempt_def dispatchEvent_def dispatchSwitch_def
      invoke_opt_def invoke_eq emit_def queueAck_step ackBatchSize_def
      ex_streamer_def ex_handlers_def setDefaults_def ex_sent_def AckModeAuto_def Let_def)

lemma ex_report_eof:
  "reportError (Some (Plain ''eof''))
     ((ex_streamer ex_handlers)
        \<lparr>pendingAcks := [''e1''], ackTimer := Some ackFlushIntervalMs, user := 1,
         trace := [StreamEvents 10, Call_OnSent ''to-a'', AfterFunc ackFlushIntervalMs, StreamClose]\<rparr>) =
     (Returned (),
      (ex_streamer ex_handlers)
        \<lparr>pendingAcks := [''e1''], ackTimer := Some ackFlushIntervalMs, user := 101,
         trace := [StreamEvents 10, Call_OnSent ''to-a'', AfterFunc ackFlushIntervalMs, StreamClose,
                   Call_OnError (Plain ''eof'')]\<rparr>)"
  by (simp add: reportError_def invoke_opt_def invoke_eq
      ex_streamer_def ex_handlers_def setDefaults_def)

theorem cancellation_stops_run_witness:
  "ctx_done_top (ex_attempt [ex_sent] None\<lparr>ctx_done_top := True\<rparr>)
   \<and> fst (run_loop [ex_attempt [ex_sent] None\<lparr>ctx_done_top := True\<rparr>, ex_attempt [ex_sent] None]
        initialDelay ex_streamer_pending) = Stopped
   \<and> trace (snd (run_loop [ex_attempt [ex_sent] None\<lparr>ctx_done_top := True\<rparr>, ex_attempt [ex_sent] None]
        initialDelay ex_streamer_pending)) = [TimerStop, AckEvents [''a'', ''b'', ''c'']]
   \<and> ctx_done_post (ex_attempt [ex_sent] None\<lparr>ctx_done_post := True, ctx_done_sleep := False\<rparr>)
   \<and> fst (run_loop [ex_attempt [ex_sent] None\<lparr>ctx_done_post := True, ctx_done_sleep := False\<rparr>,
                     ex_attempt [ex_sent] None]
        initialDelay (ex_streamer ex_handlers)) = Stopped
   \<and> trace (snd (run_loop [ex_attempt [ex_sent] None\<lparr>ctx_done_post := True, ctx_done_sleep := False\<rparr>,
                            ex_attempt [ex_sent] None]
        initialDelay (ex_streamer ex_handlers))) =
       [StreamEvents 10, Call_OnSent ''to-a'', AfterFunc ackFlushIntervalMs, StreamClose,
        TimerStop, AckEvents [''e1'']]
   \<and> ctx_done_sleep (ex_attempt [ex_sent] (Some (Plain ''eof''))\<lparr>ctx_done_post := False, ctx_done_sleep := True\<rparr>)
   \<and> fst (run_loop [ex_attempt [ex_sent] (Some (Plain ''eof''))\<lparr>ctx_done_post := False, ctx_done_sleep := True\<rparr>,
                     ex_attempt [ex_sent] None]
        initialDelay (ex_streamer ex_handlers)) = Stopped
   \<and> trace (snd (run_loop [ex_attempt [ex_sent] (Some (Plain ''eof''))\<lparr>ctx_done_post := False, ctx_done_sleep := True\<rparr>,
                            ex_attempt [ex_sent] None]
        initialDelay (ex_streamer ex_handlers))) =
       [StreamEvents 10, Call_OnSent ''to-a'', AfterFunc ackFlushIntervalMs, StreamClose,
        Call_OnError (Plain ''eof''), TimerStop, AckEvents [''e1'']]
   \<and> pendingAcks (snd (run_loop [ex_attempt [ex_sent] (Some (Plain ''eof''))\<lparr>ctx_done_post := False, ctx_done_sleep := True\<rparr>,
                            ex_attempt [ex_sent] None]
        initialDelay (ex_streamer ex_handlers))) = []"
proof -
  let ?top = "ex_attempt [ex_sent] None\<lparr>ctx_done_top := True\<rparr>"
  let ?post = "ex_attempt [ex_sent] None\<lparr>ctx_done_post := True, ctx_done_sleep := False\<rparr>"
  let ?sleep = "ex_attempt [ex_sent] (Some (Plain ''eof''))\<lparr>ctx_done_post := False, ctx_done_sleep := True\<rparr>"
  let ?s1 = "(ex_streamer ex_handlers)
        \<lparr>pendingAcks := [''e1''], ackTimer := Some ackFlushIntervalMs, user := 1,
         trace := [StreamEvents 10, Call_OnSent ''to-a'', AfterFunc ackFlushIntervalMs, StreamClose]\<rparr>"
  let ?s2 = "(ex_streamer ex_handlers)
        \<lparr>pendingAcks := [''e1''], ackTimer := Some ackFlushIntervalMs, user := 101,
         trace := [StreamEvents 10, Call_OnSent ''to-a'', AfterFunc ackFlushIntervalMs, StreamClose,
                   Call_OnError (Plain ''eof'')]\<rparr>"
  have f: "ctx_done_top ?top" "\<not> ctx_done_top ?post" "ctx_done_post ?post"
    "\<not> ctx_done_top ?sleep" "\<not> ctx_done_post ?sleep" "ctx_done_sleep ?sleep"
    by (simp_all add: ex_attempt_def)
  have r1: "run_loop [?top, ex_attempt [ex_sent] None] initialDelay ex_streamer_pending
      = (Stopped, flushAcks ex_streamer_pending)"
    by (rule cancellation_stops_run [THEN conjunct1, rule_format, OF f(1)])
  have r2: "run_loop [?post, ex_attempt [ex_sent] None] initialDelay (ex_streamer ex_handlers)
      = (Stopped, flushAcks ?s1)"
    by (rule cancellation_stops_run [THEN conjunct2, THEN conjunct1, rule_format,
          OF f(2) ex_stream_sent [where err = None and p = True and q = False] f(3)])
  have r3: "run_loop [?sleep, ex_attempt [ex_sent] None] initialDelay (ex_streamer ex_handlers)
      = (Stopped, flushAcks (flushAcks ?s2))"
    by (rule cancellation_stops_run [THEN conjunct2, THEN conjunct2, THEN conjunct1, rule_format,
          OF f(4) ex_stream_sent [where err = "Some (Plain ''eof'')" and p = False and q = True] f(5) ex_report_eof f(6)])
  have t1: "trace (flushAcks ex_streamer_pending) = [TimerStop, AckEvents [''a'', ''b'', ''c'']]"
    by (simp add: flushAcks_def flushAcksLocked_nonempty ex_streamer_pending_def ex_streamer_def)
  have t2: "trace (flushAcks ?s1) =
       [StreamEvents 10, Call_OnSent ''to-a'', AfterFunc ackFlushIntervalMs, StreamClose,
        TimerStop, AckEvents [''e1'']]"
    by (simp add: flushAcks_def flushAcksLocked_nonempty ex_streamer_def)
  have t3: "trace (flushAcks (flushAcks ?s2)) =
       [StreamEvents 10, Call_OnSent ''to-a'', AfterFunc ackFlushIntervalMs, StreamClose,
        Call_OnError (Plain ''eof''), TimerStop, AckEvents [''e1'']]"
    by (simp add: flushAcks_def flushAcksLocked_nonempty flushAcksLocked_empty ex_streamer_def)
  show ?thesis
    by (simp only: r1 r2 r3 fst_conv snd_conv t1 t2 t3 f pendingAcks_flushAcks simp_thms)
qed

subsection \<open>Defaults and the ack mode\<close>

lemma setMode_simps [simp]:
  "handlers (setMode m s) = (handlers s)\<lparr>AckMode := m\<rparr>"
  "pendingAcks (setMode m s) = pendingAcks s"
  "ackTimer (setMode m s) = ackTimer s"
  "user (setMode m s) = user s"
  "trace (setMode m s) = trace s"
  by (simp_all add: setMode_def)

lemma emit_setMode: "emit a (setMode m s) = setMode m (emit a s)"
  by (simp add: emit_def setMode_def)

lemma invoke_opt_setMode:
  "invoke_opt label cb x (setMode m s) = apsnd (setMode m) (invoke_opt label cb x s)"
  by (simp add: invoke_opt_def invoke_eq setMode_def split: option.splits)

lemma flushAcksLocked_setMode: "flushAcksLocked (setMode m s) = setMode m (flushAcksLocked s)"
  by (simp add: flushAcksLocked_def emit_def setMode_def Let_def)

lemma flushAcks_setMode: "flushAcks (setMode m s) = setMode m (flushAcks s)"
  by (simp add: flushAcks_def flushAcksLocked_setMode)

lemma dispatchSwitch_setMode:
  "dispatchSwitch (setMode m s) event = apsnd (setMode m) (dispatchSwitch s event)"
  by (simp add: dispatchSwitch_def invoke_opt_setMode split: Event_Payload.splits)

lemma dispatchEvent_setMode:
  "dispatchEvent (setMode m s) event = apsnd (setMode m) (dispatchEvent s event)"
proof -
  obtain r s1 where sw: "dispatchSwitch s event = (r, s1)" by (cases "dispatchSwitch s event")
  obtain r2 s2 where oe: "invoke_opt Call_OnError (OnError (handlers s1)) handlerPanicError s1 = (r2, s2)"
    by (cases "invoke_opt Call_OnError (OnError (handlers s1)) handlerPanicError s1")
  show ?thesis
    using sw oe
    by (simp add: dispatchEvent_def dispatchSwitch_setMode invoke_opt_setMode emit_setMode
        split: outcome.splits)
qed

lemma reportError_setMode:
  "reportError err (setMode m s) = apsnd (setMode m) (reportError err s)"
  by (simp add: reportError_def invoke_opt_setMode split: option.splits)

lemma receiveLoop_setMode:
  "AckMode (handlers s) \<noteq> AckModeAuto \<Longrightarrow> m \<noteq> AckModeAuto \<Longrightarrow>
   receiveLoop sts err (setMode m s) = apsnd (setMode m) (receiveLoop sts err s)"
proof (induction sts err s rule: receiveLoop.induct)
  case (1 err s)
  show ?case by simp
next
  case (2 rest err s)
  have "handlers (flushAcksLocked s) = handlers s"
    by (rule extends_by_handlers [OF flushAcksLocked_frame])
  with 2 show ?case by (simp add: flushAcksLocked_setMode)
next
  case (3 cd event rest err s)
  show ?case
  proof (cases "cd = None \<and> event_Type event \<noteq> EVENT_TYPE_HEARTBEAT")
    case False
    with 3 show ?thesis by (auto split: option.splits)
  next
    case True
    obtain r s1 where d: "dispatchEvent s event = (r, s1)" by (cases "dispatchEvent s event")
    have h: "handlers s1 = handlers s"
      using extends_by_handlers [OF dispatchEvent_frame(1), of s event] d by simp
    show ?thesis
    proof (cases r)
      case (Panicked v)
      with True d show ?thesis by (simp add: dispatchEvent_setMode)
    next
      case (Returned x)
      have "receiveLoop rest err (setMode m s1) = apsnd (setMode m) (receiveLoop rest err s1)"
        using "3.IH" True d Returned h "3.prems" by auto
      with True d Returned h "3.prems" show ?thesis
        by (simp add: dispatchEvent_setMode)
    qed
  qed
qed

lemma stream_setMode:
  assumes "AckMode (handlers s) \<noteq> AckModeAuto" and "m \<noteq> AckModeAuto"
  shows "stream a (setMode m s) = apsnd (setMode m) (stream a s)"
proof -
  let ?s0 = "emit (StreamEvents (BatchSize (handlers s))) s"
  have e: "emit (StreamEvents (BatchSize (handlers (setMode m s)))) (setMode m s) = setMode m ?s0"
    by (simp add: emit_setMode)
  have "AckMode (handlers ?s0) \<noteq> AckModeAuto"
    using assms(1) by (simp add: emit_def)
  then have rl: "receiveLoop (steps a) (stream_Err a) (setMode m ?s0)
      = apsnd (setMode m) (receiveLoop (steps a) (stream_Err a) ?s0)"
    using assms(2) by (rule receiveLoop_setMode)
  obtain r s1 where r: "receiveLoop (steps a) (stream_Err a) ?s0 = (r, s1)"
    by (cases "receiveLoop (steps a) (stream_Err a) ?s0")
  show ?thesis
    unfolding stream_def Let_def e rl r
    by (simp add: emit_setMode split: option.splits)
qed

lemma attempt_end_setMode:
  assumes "AckMode (handlers s) \<noteq> AckModeAuto" and "m \<noteq> AckModeAuto"
  shows "attempt_end a (setMode m s) = map_sum (apsnd (setMode m)) (setMode m) (attempt_end a s)"
proof -
  obtain r s1 where st: "stream a s = (r, s1)" by (cases "stream a s")
  have st': "stream a (setMode m s) = (r, setMode m s1)"
    using stream_setMode [OF assms, of a] st by simp
  show ?thesis
  proof (cases r)
    case (Panicked v)
    with st st' show ?thesis by (simp add: attempt_end_def flushAcks_setMode)
  next
    case (Returned err)
    obtain r2 s2 where re: "reportError err s1 = (r2, s2)" by (cases "reportError err s1")
    then have re': "reportError err (setMode m s1) = (r2, setMode m s2)"
      by (simp add: reportError_setMode)
    from st st' Returned re re' show ?thesis
      by (cases r2) (simp_all add: attempt_end_def flushAcks_setMode)
  qed
qed

lemma attempt_end_handlers:
  "attempt_end a s = Inr s3 \<Longrightarrow> handlers s3 = handlers s"
  using attempt_end_frame [where a = a and s = s] by (simp add: extends_by_def)

lemma run_loop_setMode:
  "AckMode (handlers s) \<noteq> AckModeAuto \<Longrightarrow> m \<noteq> AckModeAuto \<Longrightarrow>
   run_loop attempts d (setMode m s) = apsnd (setMode m) (run_loop attempts d s)"
proof (induction attempts arbitrary: d s)
  case Nil
  show ?case by simp
next
  case (Cons a rest)
  show ?case
  proof (cases "attempt_end a s")
    case (Inl res)
    with Cons.prems show ?thesis
      by (simp add: run_loop_Cons attempt_end_setMode)
  next
    case (Inr s3)
    let ?s4 = "emit (Sleep d) s3"
    have "handlers ?s4 = handlers s"
      using attempt_end_handlers [OF Inr] by (simp add: emit_def)
    with Cons.prems have "run_loop rest (nextDelay d) (setMode m ?s4)
        = apsnd (setMode m) (run_loop rest (nextDelay d) ?s4)"
      by (intro Cons.IH) simp_all
    with Inr Cons.prems show ?thesis
      by (simp add: run_loop_Cons attempt_end_setMode emit_setMode)
  qed
qed

lemma receiveLoop_not_auto:
  "AckMode (handlers s) \<noteq> AckModeAuto \<Longrightarrow> pendingAcks s = [] \<Longrightarrow>
   extends_by {UserAction} s (snd (receiveLoop sts err s))
   \<and> keeps_batch s (snd (receiveLoop sts err s))"
proof (induction sts err s rule: receiveLoop.induct)
  case (1 err s)
  show ?case by simp
next
  case (2 rest err s)
  then show ?case by (simp add: flushAcksLocked_empty)
next
  case (3 cd event rest err s)
  show ?case
  proof (cases "cd = None \<and> event_Type event \<noteq> EVENT_TYPE_HEARTBEAT")
    case False
    with 3 show ?thesis by (auto split: option.splits)
  next
    case True
    obtain r s1 where d: "dispatchEvent s event = (r, s1)" by (cases "dispatchEvent s event")
    have e1: "extends_by {UserAction} s s1" and k1: "keeps_batch s s1"
      using dispatchEvent_frame [of s event] d by simp_all
    then have h: "handlers s1 = handlers s" and p: "pendingAcks s1 = []"
      using "3.prems" by (simp_all add: extends_by_def keeps_batch_def)
    show ?thesis
    proof (cases r)
      case (Panicked v)
      with True d e1 k1 show ?thesis by simp
    next
      case (Returned x)
      have "extends_by {UserAction} s1 (snd (receiveLoop rest err s1))
          \<and> keeps_batch s1 (snd (receiveLoop rest err s1))"
        using "3.IH" True d Returned h p "3.prems" by auto
      with e1 k1 have "extends_by {UserAction} s (snd (receiveLoop rest err s1))
          \<and> keeps_batch s (snd (receiveLoop rest err s1))"
        by (blast intro: extends_by_trans keeps_batch_trans)
      with True d Returned h "3.prems" show ?thesis by simp
    qed
  qed
qed

lemma stream_not_auto:
  assumes "AckMode (handlers s) \<noteq> AckModeAuto" and "pendingAcks s = []"
  shows "extends_by {UserAction, TransportAction} s (snd (stream a s))
    \<and> keeps_batch s (snd (stream a s))"
proof -
  let ?K = "{UserAction, TransportAction}"
  let ?s0 = "emit (StreamEvents (BatchSize (handlers s))) s"
  have e0: "extends_by ?K s ?s0" and k0: "keeps_batch s ?s0"
    by (simp_all add: extends_by_emit)
  have "AckMode (handlers ?s0) \<noteq> AckModeAuto" and "pendingAcks ?s0 = []"
    using assms by (simp_all add: emit_def)
  then have rl: "extends_by {UserAction} ?s0 (snd (receiveLoop (steps a) (stream_Err a) ?s0))
      \<and> keeps_batch ?s0 (snd (receiveLoop (steps a) (stream_Err a) ?s0))"
    by (rule receiveLoop_not_auto)
  obtain r s1 where r: "receiveLoop (steps a) (stream_Err a) ?s0 = (r, s1)"
    by (cases "receiveLoop (steps a) (stream_Err a) ?s0")
  from rl r have e1: "extends_by ?K ?s0 s1" and k1: "keeps_batch ?s0 s1"
    by (auto intro: extends_by_mono)
  have e2: "extends_by ?K s1 (emit StreamClose s1)" and k2: "keeps_batch s1 (emit StreamClose s1)"
    by (simp_all add: extends_by_emit)
  from e0 e1 e2 have e: "extends_by ?K s (emit StreamClose s1)"
    by (blast intro: extends_by_trans)
  from k0 k1 k2 have k: "keeps_batch s (emit StreamClose s1)"
    by (blast intro: keeps_batch_trans)
  show ?thesis
    using e0 k0 e k r by (simp add: stream_def Let_def split: option.splits)
qed

lemma flushAcks_empty: "pendingAcks s = [] \<Longrightarrow> flushAcks s = s"
  by (simp add: flushAcks_def flushAcksLocked_empty)

lemma attempt_end_not_auto:
  assumes "AckMode (handlers s) \<noteq> AckModeAuto" and "pendingAcks s = []"
  shows "case attempt_end a s of
     Inl (res, s') \<Rightarrow> extends_by {UserAction, TransportAction} s s' \<and> keeps_batch s s'
   | Inr s3 \<Rightarrow> extends_by {UserAction, TransportAction} s s3 \<and> keeps_batch s s3"
proof -
  let ?K = "{UserAction, TransportAction}"
  obtain r s1 where st: "stream a s = (r, s1)" by (cases "stream a s")
  have e1: "extends_by ?K s s1" and k1: "keeps_batch s s1"
    using stream_not_auto [OF assms, of a] st by simp_all
  from k1 assms(2) have p1: "pendingAcks s1 = []" by (simp add: keeps_batch_def)
  show ?thesis
  proof (cases "ctx_done_top a")
    case True
    with assms(2) show ?thesis by (simp add: attempt_end_def flushAcks_empty)
  next
    case top: False
    show ?thesis
    proof (cases r)
      case (Panicked v)
      with top st e1 k1 show ?thesis by (simp add: attempt_end_def)
    next
      case (Returned err)
      obtain r2 s2 where re: "reportError err s1 = (r2, s2)" by (cases "reportError err s1")
      have "extends_by ?K s1 s2" and k12: "keeps_batch s1 s2"
        using reportError_frame [of s1 err] re by (auto intro: extends_by_mono)
      with e1 k1 have e2: "extends_by ?K s s2" and k2: "keeps_batch s s2"
        by (blast intro: extends_by_trans keeps_batch_trans)+
      from k2 assms(2) have p2: "pendingAcks s2 = []" by (simp add: keeps_batch_def)
      from top st Returned re e1 k1 e2 k2 p1 p2 show ?thesis
        by (cases r2) (simp_all add: attempt_end_def flushAcks_empty)
    qed
  qed
qed

lemma run_loop_not_auto:
  "AckMode (handlers s) \<noteq> AckModeAuto \<Longrightarrow> pendingAcks s = [] \<Longrightarrow>
   extends_by {UserAction, TransportAction, SleepAction} s (snd (run_loop attempts d s))
   \<and> keeps_batch s (snd (run_loop attempts d s))"
proof (induction attempts arbitrary: d s)
  case Nil
  show ?case by simp
next
  case (Cons a rest)
  let ?K = "{UserAction, TransportAction, SleepAction}"
  note ae = attempt_end_not_auto [OF Cons.prems, of a]
  show ?case
  proof (cases "attempt_end a s")
    case (Inl res)
    obtain rr s' where res: "res = (rr, s')" by (cases res)
    with ae Inl have "extends_by {UserAction, TransportAction} s s'" and "keeps_batch s s'"
      by simp_all
    then have "extends_by ?K s s'" and "keeps_batch s s'"
      by (auto intro: extends_by_mono)
    with Inl res show ?thesis by (simp add: run_loop_Cons)
  next
    case (Inr s3)
    let ?s4 = "emit (Sleep d) s3"
    from ae Inr have e3: "extends_by {UserAction, TransportAction} s s3" and k3: "keeps_batch s s3"
      by simp_all
    then have e3': "extends_by ?K s s3" by (auto intro: extends_by_mono)
    have e4: "extends_by ?K s3 ?s4" and k4: "keeps_batch s3 ?s4"
      by (simp_all add: extends_by_emit)
    from e3' e4 have e: "extends_by ?K s ?s4" by (rule extends_by_trans)
    from k3 k4 have k: "keeps_batch s ?s4" by (rule keeps_batch_trans)
    have "AckMode (handlers ?s4) \<noteq> AckModeAuto" and "pendingAcks ?s4 = []"
      using e k Cons.prems by (simp_all add: extends_by_def keeps_batch_def)
    then have "extends_by ?K ?s4 (snd (run_loop rest (nextDelay d) ?s4))
        \<and> keeps_batch ?s4 (snd (run_loop rest (nextDelay d) ?s4))"
      by (rule Cons.IH)
    with e k have "extends_by ?K s (snd (run_loop rest (nextDelay d) ?s4))
        \<and> keeps_batch s (snd (run_loop rest (nextDelay d) ?s4))"
      by (blast intro: extends_by_trans keeps_batch_trans)
    with Inr show ?thesis by (simp add: run_loop_Cons)
  qed
qed

lemma run_loop_handlers: "handlers (snd (run_loop attempts d s)) = handlers s"
proof (induction attempts arbitrary: d s)
  case Nil
  show ?case by simp
next
  case (Cons a rest)
  show ?case
  proof (cases "attempt_end a s")
    case (Inl res)
    obtain rr s' where res: "res = (rr, s')" by (cases res)
    with attempt_end_frame [where a = a and s = s] Inl have "handlers s' = handlers s"
      by (simp add: extends_by_def)
    with Inl res show ?thesis by (simp add: run_loop_Cons)
  next
    case (Inr s3)
    then have "handlers (emit (Sleep d) s3) = handlers s"
      using attempt_end_handlers [OF Inr] by (simp add: emit_def)
    with Cons.IH [of "nextDelay d" "emit (Sleep d) s3"] Inr show ?thesis
      by (simp add: run_loop_Cons)
  qed
qed

lemma opened_user_batcher:
  "extends_by {UserAction, BatcherAction} s s' \<Longrightarrow> opened (trace s') = opened (trace s)"
  unfolding opened_def by (erule extends_by_collect) (auto simp: silent_open_of)

lemma opened_stream:
  "opened (trace (snd (stream a s))) = opened (trace s) @ [BatchSize (handlers s)]"
proof -
  let ?s0 = "emit (StreamEvents (BatchSize (handlers s))) s"
  have o0: "opened (trace ?s0) = opened (trace s) @ [BatchSize (handlers s)]"
    by (simp add: emit_def opened_def)
  have o1: "opened (trace (snd (receiveLoop (steps a) (stream_Err a) ?s0))) = opened (trace ?s0)"
    by (rule opened_user_batcher [OF receiveLoop_frame])
  obtain r s1 where r: "receiveLoop (steps a) (stream_Err a) ?s0 = (r, s1)"
    by (cases "receiveLoop (steps a) (stream_Err a) ?s0")
  with o1 have "opened (trace (emit StreamClose s1)) = opened (trace ?s0)"
    by (simp add: emit_def opened_def)
  with o0 r show ?thesis
    by (simp add: stream_def Let_def split: option.splits)
qed

lemma opened_reportError: "opened (trace (snd (reportError err s))) = opened (trace s)"
  by (rule opened_user_batcher [OF extends_by_mono [OF reportError_frame(1)]]) simp

lemma opened_attempt_end:
  "case attempt_end a s of
     Inl (res, s') \<Rightarrow> set (opened (trace s')) \<subseteq> set (opened (trace s)) \<union> {BatchSize (handlers s)}
   | Inr s3 \<Rightarrow> set (opened (trace s3)) \<subseteq> set (opened (trace s)) \<union> {BatchSize (handlers s)}"
proof -
  obtain r s1 where st: "stream a s = (r, s1)" by (cases "stream a s")
  have o1: "opened (trace s1) = opened (trace s) @ [BatchSize (handlers s)]"
    using opened_stream [of a s] st by simp
  show ?thesis
  proof (cases r)
    case (Panicked v)
    with st o1 show ?thesis by (auto simp add: attempt_end_def opened_flushAcks)
  next
    case (Returned err)
    obtain r2 s2 where re: "reportError err s1 = (r2, s2)" by (cases "reportError err s1")
    have o2: "opened (trace s2) = opened (trace s) @ [BatchSize (handlers s)]"
      using opened_reportError [of err s1] re o1 by simp
    from st Returned re o1 o2 show ?thesis
      by (cases r2) (auto simp add: attempt_end_def opened_flushAcks)
  qed
qed

lemma run_loop_opened:
  "set (opened (trace (snd (run_loop attempts d s))))
     \<subseteq> set (opened (trace s)) \<union> {BatchSize (handlers s)}"
proof (induction attempts arbitrary: d s)
  case Nil
  show ?case by auto
next
  case (Cons a rest)
  show ?case
  proof (cases "attempt_end a s")
    case (Inl res)
    obtain rr s' where res: "res = (rr, s')" by (cases res)
    with opened_attempt_end [where a = a and s = s] Inl show ?thesis
      by (simp add: run_loop_Cons)
  next
    case (Inr s3)
    let ?s4 = "emit (Sleep d) s3"
    have h: "handlers ?s4 = handlers s"
      using attempt_end_handlers [OF Inr] by (simp add: emit_def)
    have o: "set (opened (trace ?s4)) \<subseteq> set (opened (trace s)) \<union> {BatchSize (handlers s)}"
      using opened_attempt_end [where a = a and s = s] Inr by (simp add: emit_def opened_def)
    have "set (opened (trace (snd (run_loop rest (nextDelay d) ?s4))))
        \<subseteq> set (opened (trace ?s4)) \<union> {BatchSize (handlers ?s4)}"
      by (rule Cons.IH)
    with h o have "set (opened (trace (snd (run_loop rest (nextDelay d) ?s4))))
        \<subseteq> set (opened (trace s)) \<union> {BatchSize (handlers s)}"
      by auto
    with Inr show ?thesis by (simp add: run_loop_Cons)
  qed
qed

lemma silent_ack_of: "k \<in> {UserAction, TransportAction, SleepAction} \<Longrightarrow> silent_on k ack_of"
  by (auto simp: silent_on_def elim: kind_of.elims)

lemma setDefaults_AckMode:
  "AckMode (setDefaults hs) = (if AckMode hs = '''' then AckModeAuto else AckMode hs)"
  by (simp add: setDefaults_def Let_def)

lemma setDefaults_BatchSize:
  "BatchSize (setDefaults hs) = (if sint (BatchSize hs) \<le> 0 then 10 else BatchSize hs)"
  by (simp add: setDefaults_def Let_def word_sle_eq)

lemma setDefaults_setMode:
  "m \<noteq> '''' \<Longrightarrow> m' \<noteq> '''' \<Longrightarrow>
   setDefaults (hs\<lparr>AckMode := m\<rparr>) = (setDefaults (hs\<lparr>AckMode := m'\<rparr>))\<lparr>AckMode := m\<rparr>"
  by (simp add: setDefaults_def Let_def)

text \<open>
  C9. \<^verbatim>\<open>OnReceive\<close> runs the streamer on its handlers with the defaults set, and they stay
  so: an empty \<^verbatim>\<open>AckMode\<close> has become auto, a \<^verbatim>\<open>BatchSize\<close> of zero or less has become 10, and
  every streaming call is opened with that batch size. In auto mode the receive loop queues
  the identifier of an event that is not a heartbeat and has one. With any mode string that
  is neither empty nor \<open>auto\<close>, a misspelling included, the run is the run in manual mode
  in all but the stored string: the same result, trace, user state, pending list and timer,
  so no error is reported for it; and nothing is ever acknowledged or left pending.
\<close>

theorem OnReceive_defaults:
  "handlers (snd (OnReceive hs u attempts)) = setDefaults hs
   \<and> AckMode (setDefaults hs) = (if AckMode hs = '''' then AckModeAuto else AckMode hs)
   \<and> BatchSize (setDefaults hs) = (if sint (BatchSize hs) \<le> 0 then 10 else BatchSize hs)
   \<and> set (opened (trace (snd (OnReceive hs u attempts)))) \<subseteq> {BatchSize (setDefaults hs)}
   \<and> (AckMode (handlers s) = AckModeAuto \<longrightarrow> event_Type event \<noteq> EVENT_TYPE_HEARTBEAT \<longrightarrow>
        event_Id event \<noteq> '''' \<longrightarrow> dispatchEvent s event = (Returned (), s1) \<longrightarrow>
        receiveLoop (Receive None event # rest) err s
          = receiveLoop rest err (queueAck (event_Id event) s1))
   \<and> (m \<noteq> '''' \<longrightarrow> m \<noteq> AckModeAuto \<longrightarrow>
        OnReceive (hs\<lparr>AckMode := m\<rparr>) u attempts
          = apsnd (setMode m) (OnReceive (hs\<lparr>AckMode := AckModeManual\<rparr>) u attempts)
        \<and> acked (trace (snd (OnReceive (hs\<lparr>AckMode := m\<rparr>) u attempts))) = []
        \<and> pendingAcks (snd (OnReceive (hs\<lparr>AckMode := m\<rparr>) u attempts)) = [])"
proof (intro conjI impI)
  show "handlers (snd (OnReceive hs u attempts)) = setDefaults hs"
    by (simp add: OnReceive_def run_def run_loop_handlers)
  show "AckMode (setDefaults hs) = (if AckMode hs = '''' then AckModeAuto else AckMode hs)"
    by (rule setDefaults_AckMode)
  show "BatchSize (setDefaults hs) = (if sint (BatchSize hs) \<le> 0 then 10 else BatchSize hs)"
    by (rule setDefaults_BatchSize)
  show "set (opened (trace (snd (OnReceive hs u attempts)))) \<subseteq> {BatchSize (setDefaults hs)}"
    using run_loop_opened [of attempts initialDelay
        "\<lparr>handlers = setDefaults hs, pendingAcks = [], ackTimer = None, user = u, trace = []\<rparr>"]
    by (simp add: OnReceive_def run_def opened_def)
next
  assume "AckMode (handlers s) = AckModeAuto" "event_Type event \<noteq> EVENT_TYPE_HEARTBEAT"
    "event_Id event \<noteq> ''''" and d: "dispatchEvent s event = (Returned (), s1)"
  moreover have "handlers s1 = handlers s"
    using extends_by_handlers [OF dispatchEvent_frame(1), of s event] d by simp
  ultimately show "receiveLoop (Receive None event # rest) err s
          = receiveLoop rest err (queueAck (event_Id event) s1)"
    by simp
next
  assume m: "m \<noteq> ''''" "m \<noteq> AckModeAuto"
  let ?man = "\<lparr>handlers = setDefaults (hs\<lparr>AckMode := AckModeManual\<rparr>), pendingAcks = [],
      ackTimer = None, user = u, trace = []\<rparr>"
  let ?mis = "\<lparr>handlers = setDefaults (hs\<lparr>AckMode := m\<rparr>), pendingAcks = [],
      ackTimer = None, user = u, trace = []\<rparr>"
  have man: "AckMode (handlers ?man) \<noteq> AckModeAuto"
    by (simp add: setDefaults_AckMode AckModeManual_def AckModeAuto_def)
  have mis: "AckMode (handlers ?mis) \<noteq> AckModeAuto"
    using m by (simp add: setDefaults_AckMode)
  have "?mis = setMode m ?man"
    using m by (simp add: setMode_def setDefaults_setMode [of m AckModeManual] AckModeManual_def)
  then show "OnReceive (hs\<lparr>AckMode := m\<rparr>) u attempts
          = apsnd (setMode m) (OnReceive (hs\<lparr>AckMode := AckModeManual\<rparr>) u attempts)"
    using run_loop_setMode [OF man m(2), of attempts initialDelay]
    by (simp add: OnReceive_def run_def)
  from run_loop_not_auto [OF mis, of attempts initialDelay]
  have e: "extends_by {UserAction, TransportAction, SleepAction} ?mis (snd (run_loop attempts initialDelay ?mis))"
    and k: "keeps_batch ?mis (snd (run_loop attempts initialDelay ?mis))"
    by simp_all
  have "acked (trace (snd (run_loop attempts initialDelay ?mis))) = acked (trace ?mis)"
    unfolding acked_def by (rule extends_by_collect [OF e]) (simp add: silent_ack_of)
  then show "acked (trace (snd (OnReceive (hs\<lparr>AckMode := m\<rparr>) u attempts))) = []"
    by (simp add: OnReceive_def run_def acked_def)
  from k show "pendingAcks (snd (OnReceive (hs\<lparr>AckMode := m\<rparr>) u attempts)) = []"
    by (simp add: OnReceive_def run_def keeps_batch_def)
qed

lemma ex_manual_run:
  "OnReceive (ex_handlers\<lparr>AckMode := AckModeManual\<rparr>) 0 [ex_attempt [ex_sent] None] =
     (Running (2 * Second),
      \<lparr>handlers = setDefaults (ex_handlers\<lparr>AckMode := AckModeManual\<rparr>), pendingAcks = [],
       ackTimer = None, user = 1,
       trace = [StreamEvents 10, Call_OnSent ''to-a'', StreamClose, Sleep initialDelay]\<rparr>)"
  by (simp add: OnReceive_def run_def run_loop.simps stream_def ex_attempt_def dispatchEvent_def
      dispatchSwitch_def invoke_opt_def invoke_eq emit_def flushAcks_def reportError_def
      flushAcksLocked_empty nextDelay_def initialDelay_def maxDelay_def backoffMultipler_def
      Second_def Millisecond_def ex_handlers_def setDefaults_def ex_sent_def
      AckModeAuto_def AckModeManual_def Let_def)

lemma ex_sent_dispatch:
  "dispatchEvent (ex_streamer ex_handlers) ex_sent =
      (Returned (), (ex_streamer ex_handlers)\<lparr>user := 1, trace := [Call_OnSent ''to-a'']\<rparr>)"
  by (simp add: dispatchEvent_def dispatchSwitch_def invoke_opt_def invoke_eq ex_sent_def
      ex_streamer_def ex_handlers_def setDefaults_def)

theorem OnReceive_defaults_witness:
  "''atuo'' \<noteq> '''' \<and> ''atuo'' \<noteq> AckModeAuto
   \<and> fst (OnReceive (ex_handlers\<lparr>AckMode := ''atuo''\<rparr>) 0 [ex_attempt [ex_sent] None])
       = Running (2 * Second)
   \<and> trace (snd (OnReceive (ex_handlers\<lparr>AckMode := ''atuo''\<rparr>) 0 [ex_attempt [ex_sent] None]))
       = [StreamEvents 10, Call_OnSent ''to-a'', StreamClose, Sleep initialDelay]
   \<and> acked (trace (snd (OnReceive (ex_handlers\<lparr>AckMode := ''atuo''\<rparr>) 0 [ex_attempt [ex_sent] None]))) = []
   \<and> pendingAcks (snd (OnReceive (ex_handlers\<lparr>AckMode := ''atuo''\<rparr>) 0 [ex_attempt [ex_sent] None])) = []
   \<and> AckMode (handlers (ex_streamer ex_handlers)) = AckModeAuto
   \<and> BatchSize (handlers (ex_streamer ex_handlers)) = 10
   \<and> event_Type ex_sent \<noteq> EVENT_TYPE_HEARTBEAT \<and> event_Id ex_sent \<noteq> ''''
   \<and> receiveLoop [Receive None ex_sent] None (ex_streamer ex_handlers) =
       (Returned None,
        queueAck ''e1'' ((ex_streamer ex_handlers)\<lparr>user := 1, trace := [Call_OnSent ''to-a'']\<rparr>))"
proof -
  have m: "''atuo'' \<noteq> ''''" "''atuo'' \<noteq> AckModeAuto"
    by (simp_all add: AckModeAuto_def)
  have a: "AckMode (handlers (ex_streamer ex_handlers)) = AckModeAuto"
    and b: "BatchSize (handlers (ex_streamer ex_handlers)) = 10"
    by (simp_all add: ex_streamer_def ex_handlers_def setDefaults_def)
  have t: "event_Type ex_sent \<noteq> EVENT_TYPE_HEARTBEAT" and i: "event_Id ex_sent \<noteq> ''''"
    and i': "event_Id ex_sent = ''e1''"
    by (simp_all add: ex_sent_def)
  note th = OnReceive_defaults [where hs = ex_handlers and u = 0
      and attempts = "[ex_attempt [ex_sent] None]" and m = "''atuo''"
      and s = "ex_streamer ex_handlers" and event = ex_sent and rest = "[]" and err = None
      and ?s1.0 = "(ex_streamer ex_handlers)\<lparr>user := 1, trace := [Call_OnSent ''to-a'']\<rparr>"]
  note auto_part = th [THEN conjunct2, THEN conjunct2, THEN conjunct2, THEN conjunct2,
      THEN conjunct1, rule_format, OF a t i ex_sent_dispatch]
  note mis_part = th [THEN conjunct2, THEN conjunct2, THEN conjunct2, THEN conjunct2,
      THEN conjunct2, rule_format, OF m]
  have r: "receiveLoop [Receive None ex_sent] None (ex_streamer ex_handlers) =
       (Returned None,
        queueAck ''e1'' ((ex_streamer ex_handlers)\<lparr>user := 1, trace := [Call_OnSent ''to-a'']\<rparr>))"
    using auto_part by (simp add: i')
  have e: "OnReceive (ex_handlers\<lparr>AckMode := ''atuo''\<rparr>) 0 [ex_attempt [ex_sent] None]
      = apsnd (setMode ''atuo'')
          (OnReceive (ex_handlers\<lparr>AckMode := AckModeManual\<rparr>) 0 [ex_attempt [ex_sent] None])"
    by (rule mis_part [THEN conjunct1])
  have f: "fst (OnReceive (ex_handlers\<lparr>AckMode := ''atuo''\<rparr>) 0 [ex_attempt [ex_sent] None])
       = Running (2 * Second)"
    and g: "trace (snd (OnReceive (ex_handlers\<lparr>AckMode := ''atuo''\<rparr>) 0 [ex_attempt [ex_sent] None]))
       = [StreamEvents 10, Call_OnSent ''to-a'', StreamClose, Sleep initialDelay]"
    by (simp_all add: e ex_manual_run)
  from m a b t i r f g mis_part [THEN conjunct2] show ?thesis by simp
qed

end
